theory Spec2Isabelle
  imports Main "HOL-Library.Char_ord" "HOL-Library.List_Lexorder" "HOL-Library.Code_Target_Nat"
begin

section \<open>Python values used by the collector\<close>

text \<open>
  The collector (\<^verbatim>\<open>telegram_collector.py\<close>) works on Python integers (unbounded, \<open>int\<close>),
  strings (compared by code point, here \<open>char list\<close> under the lexicographic order),
  \<^verbatim>\<open>datetime\<close> values and dictionaries.  Every call that may raise returns a sum:
  \<open>Inl\<close> carries the exception.
\<close>

datatype exn = Exception string

type_synonym 'a result = "exn + 'a"

text \<open>\<^verbatim>\<open>hasattr(x, "a")\<close>: an attribute of a Telethon object may be missing.\<close>

datatype 'a attr = Missing | Present 'a

subsection \<open>\<^verbatim>\<open>str(n)\<close> and zero padding\<close>

definition digit_char :: "nat \<Rightarrow> char" where
  "digit_char n = ''0123456789'' ! (n mod 10)"

function str_nat :: "nat \<Rightarrow> string" where
  "str_nat n = (if n < 10 then [digit_char n] else str_nat (n div 10) @ [digit_char (n mod 10)])"
  by pat_completeness auto
termination
  by (relation "measure (\<lambda>n. n)") auto

declare str_nat.simps [simp del]

definition str_int :: "int \<Rightarrow> string" where
  "str_int i = (if i < 0 then CHR ''-'' # str_nat (nat (- i)) else str_nat (nat i))"

text \<open>\<^verbatim>\<open>"%0wd" % n\<close> for \<open>n \<ge> 0\<close>.\<close>

definition zpad :: "nat \<Rightarrow> nat \<Rightarrow> string" where
  "zpad w n = replicate (w - length (str_nat n)) CHR ''0'' @ str_nat n"

subsection \<open>\<^verbatim>\<open>datetime\<close>\<close>

text \<open>
  A \<^verbatim>\<open>datetime\<close> with its fields; \<open>dt_tzinfo\<close> is \<open>None\<close> for a naive value and
  otherwise the UTC offset of the attached \<^verbatim>\<open>tzinfo\<close>, in whole minutes
  (\<^verbatim>\<open>timezone.utc\<close> is \<open>Some 0\<close>).
\<close>

record datetime =
  dt_year :: nat
  dt_month :: nat
  dt_day :: nat
  dt_hour :: nat
  dt_minute :: nat
  dt_second :: nat
  dt_microsecond :: nat
  dt_tzinfo :: "int option"

text \<open>The proleptic Gregorian ordinal of a date, as \<^verbatim>\<open>datetime.toordinal\<close> computes it.\<close>

definition is_leap :: "nat \<Rightarrow> bool" where
  "is_leap y = (y mod 4 = 0 \<and> (y mod 100 \<noteq> 0 \<or> y mod 400 = 0))"

definition days_before_year :: "nat \<Rightarrow> int" where
  "days_before_year year =
     (let y = int year - 1 in y * 365 + y div 4 - y div 100 + y div 400)"

definition days_before_month :: "nat \<Rightarrow> nat \<Rightarrow> int" where
  "days_before_month year month =
     int (sum_list (take (month - 1) [31, 28, 31, 30, 31, 30, 31, 31, 30, 31, 30, 31]))
       + (if month > 2 \<and> is_leap year then 1 else 0)"

definition ymd2ord :: "nat \<Rightarrow> nat \<Rightarrow> nat \<Rightarrow> int" where
  "ymd2ord year month day = days_before_year year + days_before_month year month + int day"

text \<open>
  Microseconds from the midnight that starts ordinal day 0 to the wall-clock reading of
  a datetime, and to the instant it denotes: the UTC offset is subtracted, and a naive
  value is read as UTC.  Python orders two aware datetimes by these instants.
\<close>

definition wall_micros :: "datetime \<Rightarrow> int" where
  "wall_micros d =
     ((ymd2ord (dt_year d) (dt_month d) (dt_day d) * 86400
        + int (dt_hour d) * 3600 + int (dt_minute d) * 60 + int (dt_second d)) * 1000000)
       + int (dt_microsecond d)"

definition instant :: "datetime \<Rightarrow> int" where
  "instant d = wall_micros d - (case dt_tzinfo d of None \<Rightarrow> 0 | Some off \<Rightarrow> off * 60 * 1000000)"

text \<open>
  \<^verbatim>\<open>d < since_date\<close> for an aware \<^verbatim>\<open>since_date\<close>, given as an instant: Python raises
  \<^verbatim>\<open>TypeError\<close> when \<open>d\<close> is naive and compares the instants otherwise.
\<close>

definition less_than_aware :: "datetime \<Rightarrow> int \<Rightarrow> bool result" where
  "less_than_aware d since_date =
     (case dt_tzinfo d of
        None \<Rightarrow> Inl (Exception ''TypeError'')
      | Some off \<Rightarrow> Inr (wall_micros d - off * 60 * 1000000 < since_date))"

text \<open>\<^verbatim>\<open>datetime.isoformat()\<close>: \<^verbatim>\<open>YYYY-MM-DDTHH:MM:SS[.ffffff][+HH:MM]\<close>.\<close>

definition format_offset :: "int \<Rightarrow> string" where
  "format_offset off =
     (let a = nat \<bar>off\<bar> in
      (if off < 0 then ''-'' else ''+'') @ zpad 2 (a div 60) @ '':'' @ zpad 2 (a mod 60))"

definition tz_suffix :: "int option \<Rightarrow> string" where
  "tz_suffix tz = (case tz of None \<Rightarrow> [] | Some off \<Rightarrow> format_offset off)"

definition isoformat :: "datetime \<Rightarrow> string" where
  "isoformat d =
     zpad 4 (dt_year d) @ ''-'' @ zpad 2 (dt_month d) @ ''-'' @ zpad 2 (dt_day d) @ ''T''
       @ zpad 2 (dt_hour d) @ '':'' @ zpad 2 (dt_minute d) @ '':'' @ zpad 2 (dt_second d)
       @ (if dt_microsecond d \<noteq> 0 then ''.'' @ zpad 6 (dt_microsecond d) else [])
       @ tz_suffix (dt_tzinfo d)"

text \<open>
  The ranges that the constructor of \<^verbatim>\<open>datetime\<close> enforces, and the fields in the order
  in which Python compares two datetimes of one \<^verbatim>\<open>tzinfo\<close>.
\<close>

definition days_in_month :: "nat \<Rightarrow> nat \<Rightarrow> nat" where
  "days_in_month year month =
     (if month = 2 \<and> is_leap year then 29
      else [31, 28, 31, 30, 31, 30, 31, 31, 30, 31, 30, 31] ! (month - 1))"

definition valid_datetime :: "datetime \<Rightarrow> bool" where
  "valid_datetime d =
     (1 \<le> dt_year d \<and> dt_year d \<le> 9999 \<and> 1 \<le> dt_month d \<and> dt_month d \<le> 12
      \<and> 1 \<le> dt_day d \<and> dt_day d \<le> days_in_month (dt_year d) (dt_month d)
      \<and> dt_hour d < 24 \<and> dt_minute d < 60 \<and> dt_second d < 60 \<and> dt_microsecond d < 1000000)"

definition dt_fields :: "datetime \<Rightarrow> nat list" where
  "dt_fields d =
     [dt_year d, dt_month d, dt_day d, dt_hour d, dt_minute d, dt_second d, dt_microsecond d]"

text \<open>
  \<^verbatim>\<open>datetime.now(timezone.utc) - timedelta(hours=h)\<close>, on instants.  The constructor
  of \<^verbatim>\<open>timedelta\<close> raises \<^verbatim>\<open>OverflowError\<close> beyond 999999999 days, and the
  subtraction raises it when the result leaves the years 1 to 9999.
\<close>

definition datetime_min :: int where
  "datetime_min = 86400 * 1000000"

definition datetime_max :: int where
  "datetime_max = (3652059 * 86400 + 86399) * 1000000 + 999999"

definition minus_hours :: "int \<Rightarrow> int \<Rightarrow> int result" where
  "minus_hours now h =
     (if \<bar>h div 24\<bar> > 999999999 then Inl (Exception ''OverflowError'')
      else let t = now - h * 3600 * 1000000 in
        if t < datetime_min \<or> datetime_max < t then Inl (Exception ''OverflowError'')
        else Inr t)"

section \<open>Telegram objects and the client\<close>

datatype media = MessageMediaPhoto | MessageMediaDocument | OtherMedia

text \<open>
  A message of \<^verbatim>\<open>messages.messages\<close>.  The collector tests \<^verbatim>\<open>hasattr\<close> for
  \<^verbatim>\<open>message\<close>, \<^verbatim>\<open>views\<close>, \<^verbatim>\<open>forwards\<close> and \<^verbatim>\<open>reply_to\<close>; for the counters and
  the reply header a missing attribute and \<^verbatim>\<open>None\<close> behave alike.  \<open>msg_reply_to\<close> is
  \<^verbatim>\<open>msg.reply_to.reply_to_msg_id\<close> when the message has a reply header.
\<close>

record message =
  msg_id :: int
  msg_date :: datetime
  msg_message :: "string option attr"
  msg_media :: "media option"
  msg_views :: "int option"
  msg_forwards :: "int option"
  msg_reply_to :: "int option"

record entity =
  ent_id :: int
  ent_title :: "string option"
  ent_username :: "string option"
  ent_about :: "string option"

text \<open>
  The arguments of \<^verbatim>\<open>GetHistoryRequest\<close> that vary or bound the answer; the peer is
  passed beside the request, and \<^verbatim>\<open>offset_date\<close> is always \<^verbatim>\<open>None\<close> and \<^verbatim>\<open>hash\<close>
  always 0.
\<close>

record history_request =
  req_limit :: int
  req_offset_id :: int
  req_max_id :: int
  req_min_id :: int
  req_add_offset :: int

text \<open>
  The Telethon client and the clock are outside the program: each call is a parameter.
  The first argument is the index of the channel-loop iteration in which the call is
  made, so that the answers may change while a run proceeds (messages arrive, time
  passes).  \<open>client_download_media\<close> receives the message whose \<^verbatim>\<open>media\<close> is
  downloaded and the target path.  \<open>utc_now\<close> is \<^verbatim>\<open>datetime.now(timezone.utc)\<close> as an
  instant, \<open>now_stamp\<close> is
  \<^verbatim>\<open>datetime.now().strftime("%Y%m%d_%H%M%S")\<close>.
\<close>

record client =
  get_entity :: "nat \<Rightarrow> string \<Rightarrow> entity result"
  get_participants_count :: "nat \<Rightarrow> entity \<Rightarrow> int option result"
  get_history :: "nat \<Rightarrow> entity \<Rightarrow> history_request \<Rightarrow> message list result"
  client_download_media :: "nat \<Rightarrow> message \<Rightarrow> string \<Rightarrow> string option result"
  get_messages :: "nat \<Rightarrow> entity \<Rightarrow> int \<Rightarrow> message option result"
  utc_now :: "nat \<Rightarrow> int"
  now_stamp :: "nat \<Rightarrow> string"

record channel_info =
  ci_id :: int
  ci_title :: "string option"
  ci_username :: "string option"
  ci_description :: "string option"
  ci_participants_count :: "int option"

text \<open>The dictionary \<^verbatim>\<open>message_data\<close> built for each collected message.\<close>

record message_data =
  md_id :: int
  md_channel_id :: int
  md_channel_title :: "string option"
  md_channel_username :: "string option"
  md_channel_description :: "string option"
  md_date :: string
  md_text :: "string option"
  md_media_path :: "string option"
  md_media_type :: "string option"
  md_views :: "int option"
  md_forwards :: "int option"
  md_reply_to_msg_id :: "int option"
  md_reply_to_msg_text :: "string option"

text \<open>\<^verbatim>\<open>last_message_tracking\<close>: \<^verbatim>\<open>Dict[str, int]\<close>, keyed by \<^verbatim>\<open>str(entity.id)\<close>.\<close>

type_synonym tracking = "string \<rightharpoonup> int"

section \<open>The collector\<close>

definition get_channel_info :: "client \<Rightarrow> nat \<Rightarrow> string \<Rightarrow> channel_info result" where
  "get_channel_info cl k channel_username =
     (case get_entity cl k channel_username of
        Inl e \<Rightarrow> Inl e
      | Inr ent \<Rightarrow>
          (case get_participants_count cl k ent of
             Inl e \<Rightarrow> Inl e
           | Inr pc \<Rightarrow>
               Inr \<lparr>ci_id = ent_id ent, ci_title = ent_title ent,
                    ci_username = ent_username ent, ci_description = ent_about ent,
                    ci_participants_count = pc\<rparr>))"

text \<open>\<^verbatim>\<open>self.media_dir\<close>, relative to the working directory.\<close>

definition media_dir :: string where
  "media_dir = ''media''"

definition download_media :: "client \<Rightarrow> nat \<Rightarrow> message \<Rightarrow> string option result" where
  "download_media cl k msg =
     (case msg_media msg of
        Some med \<Rightarrow>
          (let timestamp = now_stamp cl k;
               filename = str_int (msg_id msg) @ ''_'' @ timestamp
           in client_download_media cl k msg (media_dir @ ''/'' @ filename))
      | None \<Rightarrow> Inr None)"

definition media_type_of :: "media option \<Rightarrow> string option" where
  "media_type_of m =
     (if m = Some MessageMediaPhoto then Some ''photo''
      else if m = Some MessageMediaDocument then Some ''document''
      else None)"

definition message_text :: "message \<Rightarrow> string option" where
  "message_text m = (case msg_message m of Missing \<Rightarrow> Some [] | Present t \<Rightarrow> t)"

text \<open>
  The reply lookup: first in the current batch, then from the server; an exception of
  the lookup is caught and leaves the text \<^verbatim>\<open>None\<close>.
\<close>

definition reply_text :: "client \<Rightarrow> nat \<Rightarrow> entity \<Rightarrow> message list \<Rightarrow> int \<Rightarrow> string option" where
  "reply_text cl k ent batch reply_to_msg_id =
     (case (case find (\<lambda>m. msg_id m = reply_to_msg_id) batch of
              Some m \<Rightarrow> Inr (Some m)
            | None \<Rightarrow> get_messages cl k ent reply_to_msg_id) of
        Inl e \<Rightarrow> None
      | Inr None \<Rightarrow> None
      | Inr (Some original_msg) \<Rightarrow> message_text original_msg)"

text \<open>
  The collection strategy of a channel: \<^verbatim>\<open>use_id_tracking\<close> with its
  \<^verbatim>\<open>last_message_id\<close>, or the time-based fallback with its \<^verbatim>\<open>since_date\<close>.
\<close>

datatype strategy = IdTracking int | TimeFallback int

fun use_id_tracking :: "strategy \<Rightarrow> bool" where
  "use_id_tracking (IdTracking _) = True"
| "use_id_tracking (TimeFallback _) = False"

definition replace_tzinfo_utc :: "datetime \<Rightarrow> datetime" where
  "replace_tzinfo_utc d = d\<lparr>dt_tzinfo := Some 0\<rparr>"

text \<open>
  The date filter of the fallback: \<open>Inr True\<close> is the \<^verbatim>\<open>continue\<close>, and \<open>Inl\<close> the
  exception of the comparison.
\<close>

fun skipped :: "strategy \<Rightarrow> message \<Rightarrow> bool result" where
  "skipped (IdTracking _) msg = Inr False"
| "skipped (TimeFallback since_date) msg =
     (let msg_date = (if dt_tzinfo (msg_date msg) = None
                      then replace_tzinfo_utc (msg_date msg) else msg_date msg)
      in less_than_aware msg_date since_date)"

text \<open>One pass of the message loop: \<open>Inr None\<close> when the message is skipped.\<close>

definition process_message ::
  "client \<Rightarrow> nat \<Rightarrow> entity \<Rightarrow> channel_info \<Rightarrow> strategy \<Rightarrow> message list \<Rightarrow> message
     \<Rightarrow> message_data option result" where
  "process_message cl k ent info strat batch msg =
     (case skipped strat msg of
        Inl e \<Rightarrow> Inl e
      | Inr True \<Rightarrow> Inr None
      | Inr False \<Rightarrow>
        (case download_media cl k msg of
           Inl e \<Rightarrow> Inl e
         | Inr media_path \<Rightarrow>
             Inr (Some
               \<lparr>md_id = msg_id msg,
                md_channel_id = ent_id ent,
                md_channel_title = ci_title info,
                md_channel_username = ci_username info,
                md_channel_description = ci_description info,
                md_date = isoformat (msg_date msg),
                md_text = message_text msg,
                md_media_path = media_path,
                md_media_type = media_type_of (msg_media msg),
                md_views = msg_views msg,
                md_forwards = msg_forwards msg,
                md_reply_to_msg_id = msg_reply_to msg,
                md_reply_to_msg_text =
                  (case msg_reply_to msg of
                     None \<Rightarrow> None
                   | Some rid \<Rightarrow> reply_text cl k ent batch rid)\<rparr>)))"

fun process_messages ::
  "client \<Rightarrow> nat \<Rightarrow> entity \<Rightarrow> channel_info \<Rightarrow> strategy \<Rightarrow> message list \<Rightarrow> message list
     \<Rightarrow> message_data list \<Rightarrow> message_data list result" where
  "process_messages cl k ent info strat batch [] channel_messages = Inr channel_messages"
| "process_messages cl k ent info strat batch (msg # rest) channel_messages =
     (case process_message cl k ent info strat batch msg of
        Inl e \<Rightarrow> Inl e
      | Inr None \<Rightarrow> process_messages cl k ent info strat batch rest channel_messages
      | Inr (Some message_data) \<Rightarrow>
          process_messages cl k ent info strat batch rest (channel_messages @ [message_data]))"

text \<open>\<^verbatim>\<open>max(msg["id"] for msg in channel_messages)\<close> of a non-empty list.\<close>

definition newest_id :: "message_data \<Rightarrow> message_data list \<Rightarrow> int" where
  "newest_id m ms = fold (\<lambda>x acc. if acc < md_id x then md_id x else acc) ms (md_id m)"

text \<open>The choice of strategy; the fallback computes \<^verbatim>\<open>since_date\<close>, which may raise.\<close>

definition choose_strategy :: "client \<Rightarrow> nat \<Rightarrow> int \<Rightarrow> tracking \<Rightarrow> string \<Rightarrow> strategy result" where
  "choose_strategy cl k fallback_hours last_message_tracking channel_id =
     (case last_message_tracking channel_id of
        Some last_message_id \<Rightarrow>
          (if last_message_id > 0 then Inr (IdTracking last_message_id)
           else map_sum id TimeFallback (minus_hours (utc_now cl k) fallback_hours))
      | None \<Rightarrow> map_sum id TimeFallback (minus_hours (utc_now cl k) fallback_hours))"

fun history_request_of :: "int \<Rightarrow> strategy \<Rightarrow> history_request" where
  "history_request_of limit (IdTracking last_message_id) =
     \<lparr>req_limit = limit, req_offset_id = 0, req_max_id = 0,
      req_min_id = last_message_id + 1, req_add_offset = 0\<rparr>"
| "history_request_of limit (TimeFallback _) =
     \<lparr>req_limit = limit, req_offset_id = 0, req_max_id = 0, req_min_id = 0, req_add_offset = 0\<rparr>"

text \<open>The update of the tracking entry after the message loop.\<close>

definition update_tracking ::
  "tracking \<Rightarrow> string \<Rightarrow> strategy \<Rightarrow> message_data list \<Rightarrow> tracking" where
  "update_tracking last_message_tracking channel_id strat channel_messages =
     (case channel_messages of
        [] \<Rightarrow> last_message_tracking
      | m # ms \<Rightarrow>
          (case strat of
             IdTracking last_message_id \<Rightarrow>
               last_message_tracking(channel_id \<mapsto> max (newest_id m ms) last_message_id)
           | TimeFallback _ \<Rightarrow> last_message_tracking(channel_id \<mapsto> newest_id m ms)))"

text \<open>
  The body of the \<^verbatim>\<open>try\<close> for one channel: the new tracking and the channel's messages,
  or the exception that the \<^verbatim>\<open>except\<close> clause of the channel loop catches.
\<close>

definition process_channel ::
  "client \<Rightarrow> nat \<Rightarrow> int \<Rightarrow> int \<Rightarrow> tracking \<Rightarrow> string
     \<Rightarrow> (tracking \<times> message_data list) result" where
  "process_channel cl k limit fallback_hours last_message_tracking username =
     (case get_entity cl k username of
        Inl e \<Rightarrow> Inl e
      | Inr ent \<Rightarrow>
          (let channel_id = str_int (ent_id ent) in
           case get_channel_info cl k username of
             Inl e \<Rightarrow> Inl e
           | Inr info \<Rightarrow>
               (case choose_strategy cl k fallback_hours last_message_tracking channel_id of
                  Inl e \<Rightarrow> Inl e
                | Inr strat \<Rightarrow>
                    (case get_history cl k ent (history_request_of limit strat) of
                       Inl e \<Rightarrow> Inl e
                     | Inr messages \<Rightarrow>
                         (case process_messages cl k ent info strat messages messages [] of
                            Inl e \<Rightarrow> Inl e
                          | Inr channel_messages \<Rightarrow>
                              Inr (update_tracking last_message_tracking channel_id strat
                                     channel_messages,
                                   channel_messages))))))"

text \<open>The channel loop: a channel whose body raised leaves both variables as they were.\<close>

fun collect_channels ::
  "client \<Rightarrow> int \<Rightarrow> int \<Rightarrow> nat \<Rightarrow> string list \<Rightarrow> tracking \<Rightarrow> message_data list
     \<Rightarrow> tracking \<times> message_data list" where
  "collect_channels cl limit fallback_hours k [] last_message_tracking all_messages =
     (last_message_tracking, all_messages)"
| "collect_channels cl limit fallback_hours k (username # rest) last_message_tracking all_messages =
     (case process_channel cl k limit fallback_hours last_message_tracking username of
        Inl e \<Rightarrow>
          collect_channels cl limit fallback_hours (Suc k) rest last_message_tracking all_messages
      | Inr (tracking', channel_messages) \<Rightarrow>
          collect_channels cl limit fallback_hours (Suc k) rest tracking'
            (all_messages @ channel_messages))"

section \<open>The tracking file\<close>

text \<open>
  The file \<^verbatim>\<open>data/last_message_tracking.json\<close> is \<open>None\<close> when it does not exist and
  otherwise holds its text.  What the operating system and the \<^verbatim>\<open>json\<close> module do is
  a parameter: whether opening raises, what \<^verbatim>\<open>json.load\<close> makes of a text (under the
  declared type \<^verbatim>\<open>Dict[str, int]\<close>), whether \<^verbatim>\<open>os.makedirs\<close> raises, the chunks that
  \<^verbatim>\<open>json.dump\<close> hands to \<^verbatim>\<open>write\<close> one after the other, and whether the i-th
  \<^verbatim>\<open>write\<close> raises.
\<close>

record os_env =
  open_read_error :: "exn option"
  json_load :: "string \<Rightarrow> tracking result"
  makedirs_error :: "exn option"
  open_write_error :: "exn option"
  json_chunks :: "tracking \<Rightarrow> string list"
  write_error :: "nat \<Rightarrow> exn option"

definition load_last_message_tracking :: "os_env \<Rightarrow> string option \<Rightarrow> tracking result" where
  "load_last_message_tracking os file =
     (case file of
        Some text \<Rightarrow>
          (case (case open_read_error os of
                   Some e \<Rightarrow> Inl e
                 | None \<Rightarrow> json_load os text) of
             Inr tracking \<Rightarrow> Inr tracking
           | Inl e \<Rightarrow> Inr Map.empty)
      | None \<Rightarrow> Inr Map.empty)"

text \<open>
  The writes of \<^verbatim>\<open>json.dump\<close> into the file opened with mode \<^verbatim>\<open>'w'\<close>: the result
  and the text of the file afterwards.
\<close>

fun write_chunks :: "(nat \<Rightarrow> exn option) \<Rightarrow> nat \<Rightarrow> string list \<Rightarrow> string \<Rightarrow> unit result \<times> string" where
  "write_chunks werr i [] content = (Inr (), content)"
| "write_chunks werr i (c # cs) content =
     (case werr i of
        Some e \<Rightarrow> (Inl e, content)
      | None \<Rightarrow> write_chunks werr (Suc i) cs (content @ c))"

text \<open>
  \<^verbatim>\<open>_save_last_message_tracking\<close>: \<^verbatim>\<open>os.makedirs\<close> stands before the \<^verbatim>\<open>try\<close>, so
  its exception leaves the function; opening with \<^verbatim>\<open>'w'\<close> truncates the file; an
  exception of opening or writing is caught and logged.
\<close>

definition save_last_message_tracking ::
  "os_env \<Rightarrow> string option \<Rightarrow> tracking \<Rightarrow> unit result \<times> string option" where
  "save_last_message_tracking os file tracking_data =
     (case makedirs_error os of
        Some e \<Rightarrow> (Inl e, file)
      | None \<Rightarrow>
          (case open_write_error os of
             Some e \<Rightarrow> (Inr (), file)
           | None \<Rightarrow>
               (Inr (), Some (snd (write_chunks (write_error os) 0 (json_chunks os tracking_data) [])))))"

text \<open>
  The texts that the file holds one after the other while the writes proceed, and the
  states of the file during a whole call: an execution cut short at some point leaves
  the file in one of them.
\<close>

fun write_states :: "(nat \<Rightarrow> exn option) \<Rightarrow> nat \<Rightarrow> string list \<Rightarrow> string \<Rightarrow> string list" where
  "write_states werr i [] content = [content]"
| "write_states werr i (c # cs) content =
     content # (case werr i of
                  Some e \<Rightarrow> []
                | None \<Rightarrow> write_states werr (Suc i) cs (content @ c))"

definition save_states :: "os_env \<Rightarrow> string option \<Rightarrow> tracking \<Rightarrow> string option list" where
  "save_states os file tracking_data =
     file # (case makedirs_error os of
               Some e \<Rightarrow> []
             | None \<Rightarrow>
                 (case open_write_error os of
                    Some e \<Rightarrow> []
                  | None \<Rightarrow>
                      map Some (write_states (write_error os) 0 (json_chunks os tracking_data) [])))"

section \<open>A collection run\<close>

text \<open>
  \<^verbatim>\<open>get_new_messages_without_duplication\<close>: the value returned (or the exception that
  leaves the function) and the tracking file afterwards.
\<close>

definition get_new_messages_without_duplication ::
  "client \<Rightarrow> os_env \<Rightarrow> string option \<Rightarrow> string list \<Rightarrow> int \<Rightarrow> int
     \<Rightarrow> message_data list result \<times> string option" where
  "get_new_messages_without_duplication cl os file channel_usernames limit fallback_hours =
     (case load_last_message_tracking os file of
        Inl e \<Rightarrow> (Inl e, file)
      | Inr last_message_tracking \<Rightarrow>
          (case collect_channels cl limit fallback_hours 0 channel_usernames
                  last_message_tracking [] of
             (tracking', all_messages) \<Rightarrow>
               (case save_last_message_tracking os file tracking' of
                  (Inl e, file') \<Rightarrow> (Inl e, file')
                | (Inr u, file') \<Rightarrow> (Inr (sort_key md_date all_messages), file'))))"

section \<open>The history of a channel on the server\<close>

text \<open>
  The server is not part of the program.  Its documented answer to
  \<^verbatim>\<open>messages.getHistory\<close> with \<^verbatim>\<open>offset_id = 0\<close> and \<^verbatim>\<open>add_offset = 0\<close>, for a channel
  whose messages are \<open>store\<close> (newest first): at most \<^verbatim>\<open>limit\<close> messages, only those
  with an id more than \<^verbatim>\<open>min_id\<close> when that is positive, and only those with an id less
  than \<^verbatim>\<open>max_id\<close> when that is positive.
\<close>

definition telegram_history :: "message list \<Rightarrow> history_request \<Rightarrow> message list" where
  "telegram_history store r =
     take (nat (req_limit r))
       (filter (\<lambda>m. (if 0 < req_min_id r then req_min_id r < msg_id m else True)
                   \<and> (if 0 < req_max_id r then msg_id m < req_max_id r else True)) store)"

text \<open>
  What the duplicate-freedom of a run needs of the answers: ids are positive, no id
  occurs twice in one answer, and no answer goes below a positive \<^verbatim>\<open>min_id\<close>.
\<close>

definition answers_respect_min_id :: "client \<Rightarrow> bool" where
  "answers_respect_min_id cl =
     (\<forall>k ent r ms. get_history cl k ent r = Inr ms \<longrightarrow>
        distinct (map msg_id ms)
        \<and> (\<forall>m \<in> set ms. 0 < msg_id m \<and> (0 < req_min_id r \<longrightarrow> req_min_id r \<le> msg_id m)))"

text \<open>
  What the chronological order of the corpus needs of the answers: the dates are
  datetimes with fields in range, and each is aware with offset zero, as Telethon
  delivers them, or naive, as the collector also provides for.
\<close>

definition utc_or_naive :: "datetime \<Rightarrow> bool" where
  "utc_or_naive d = (valid_datetime d \<and> (dt_tzinfo d = None \<or> dt_tzinfo d = Some 0))"

definition answers_hold_utc_dates :: "client \<Rightarrow> bool" where
  "answers_hold_utc_dates cl =
     (\<forall>k ent r ms. get_history cl k ent r = Inr ms \<longrightarrow>
        (\<forall>m \<in> set ms. utc_or_naive (msg_date m)))"

text \<open>
  The identity of a collected message, the tracking key of its channel, and what holds
  of the tracking and the messages collected so far at every pass of the channel loop
  of a run that started from the tracking \<open>tracking0\<close>: no identity occurs twice;
  every collected id is positive and at most the current watermark of its channel, and
  above the watermark its channel started with; no watermark went down.
\<close>

definition message_key :: "message_data \<Rightarrow> int \<times> int" where
  "message_key d = (md_channel_id d, md_id d)"

definition tracking_key :: "message_data \<Rightarrow> string" where
  "tracking_key d = str_int (md_channel_id d)"

definition run_invariant :: "tracking \<Rightarrow> tracking \<Rightarrow> message_data list \<Rightarrow> bool" where
  "run_invariant tracking0 tracking all_messages =
     (distinct (map message_key all_messages)
      \<and> (\<forall>d \<in> set all_messages.
            0 < md_id d
          \<and> (\<exists>w. tracking (tracking_key d) = Some w \<and> md_id d \<le> w)
          \<and> (\<forall>W. tracking0 (tracking_key d) = Some W \<longrightarrow> 0 < W \<longrightarrow> W < md_id d))
      \<and> (\<forall>key W. tracking0 key = Some W \<longrightarrow> 0 < W \<longrightarrow>
            (\<exists>w. tracking key = Some w \<and> W \<le> w)))"

section \<open>Example inputs\<close>

text \<open>
  A channel \<^verbatim>\<open>news\<close> with four messages, the oldest three days before the run,
  one with a photo and one with a naive timestamp; a client that answers from it as the
  server is documented to; and an operating system on which nothing fails.  Every other
  handle does not resolve.
\<close>

definition utc_datetime :: "nat \<Rightarrow> nat \<Rightarrow> nat \<Rightarrow> nat \<Rightarrow> nat \<Rightarrow> nat \<Rightarrow> datetime" where
  "utc_datetime y mo d h mi s =
     \<lparr>dt_year = y, dt_month = mo, dt_day = d, dt_hour = h, dt_minute = mi, dt_second = s,
      dt_microsecond = 0, dt_tzinfo = Some 0\<rparr>"

definition text_message :: "int \<Rightarrow> datetime \<Rightarrow> message" where
  "text_message i d =
     \<lparr>msg_id = i, msg_date = d, msg_message = Present (Some ''hello''), msg_media = None,
      msg_views = Some 10, msg_forwards = None, msg_reply_to = None\<rparr>"

definition news_entity :: entity where
  "news_entity = \<lparr>ent_id = 1, ent_title = Some ''News'', ent_username = Some ''news'',
                   ent_about = None\<rparr>"

definition news_store :: "message list" where
  "news_store =
     [text_message 7 (utc_datetime 2024 1 2 11 0 0),
      (text_message 6 (utc_datetime 2024 1 2 10 0 0))\<lparr>msg_media := Some MessageMediaPhoto\<rparr>,
      text_message 5 ((utc_datetime 2024 1 2 9 0 0)\<lparr>dt_tzinfo := None\<rparr>),
      text_message 4 (utc_datetime 2023 12 30 9 0 0)]"

definition news_client :: client where
  "news_client =
     \<lparr>get_entity = (\<lambda>k u. if u = ''news'' then Inr news_entity
                           else Inl (Exception ''ValueError'')),
      get_participants_count = (\<lambda>k e. Inr None),
      get_history = (\<lambda>k e r. Inr (telegram_history news_store r)),
      client_download_media = (\<lambda>k m path. Inr (Some path)),
      get_messages = (\<lambda>k e i. Inr None),
      utc_now = (\<lambda>k. instant (utc_datetime 2024 1 2 12 0 0)),
      now_stamp = (\<lambda>k. ''20240102_120000'')\<rparr>"

definition plain_os :: os_env where
  \<open>plain_os =
     \<lparr>open_read_error = None,
      json_load = (\<lambda>t. if t = ''{"1": 4}'' then Inr [''1'' \<mapsto> 4]
                        else Inl (Exception ''JSONDecodeError'')),
      makedirs_error = None,
      open_write_error = None,
      json_chunks = (\<lambda>tr. case tr ''1'' of None \<Rightarrow> [''{}'']
                          | Some w \<Rightarrow> [''{'', ''"1"'', '': '', str_int w, ''}'']),
      write_error = (\<lambda>i. None)\<rparr>\<close>

text \<open>The same client when every media download raises.\<close>

definition failing_media_client :: client where
  "failing_media_client =
     news_client\<lparr>client_download_media := (\<lambda>k m path. Inl (Exception ''TimeoutError''))\<rparr>"

text \<open>An operating system on which the tracking file cannot be opened for writing.\<close>

definition readonly_os :: os_env where
  "readonly_os = plain_os\<lparr>open_write_error := Some (Exception ''PermissionError'')\<rparr>"

section \<open>Properties\<close>

subsection \<open>The message loop\<close>

lemma process_message_Some:
  "process_message cl k ent info strat batch msg = Inr (Some d) \<Longrightarrow>
     skipped strat msg = Inr False \<and> md_id d = msg_id msg \<and> md_channel_id d = ent_id ent
       \<and> md_date d = isoformat (msg_date msg)"
  by (auto simp: process_message_def split: sum.splits bool.splits)

lemma process_message_None:
  "process_message cl k ent info strat batch msg = Inr None \<Longrightarrow> skipped strat msg = Inr True"
  by (auto simp: process_message_def split: sum.splits bool.splits)

lemma process_messages_Inr:
  "process_messages cl k ent info strat batch msgs acc = Inr res \<Longrightarrow>
     \<exists>new. res = acc @ new
       \<and> map md_id new = map msg_id (filter (\<lambda>m. skipped strat m = Inr False) msgs)
       \<and> map md_date new = map (\<lambda>m. isoformat (msg_date m)) (filter (\<lambda>m. skipped strat m = Inr False) msgs)
       \<and> (\<forall>d \<in> set new. md_channel_id d = ent_id ent)"
proof (induction msgs arbitrary: acc res)
  case Nil
  then show ?case by simp
next
  case (Cons msg rest)
  show ?case
  proof (cases "process_message cl k ent info strat batch msg")
    case (Inl e)
    with Cons.prems show ?thesis by simp
  next
    case (Inr r)
    show ?thesis
    proof (cases r)
      case None
      with Inr Cons.prems have "process_messages cl k ent info strat batch rest acc = Inr res"
        by simp
      from Cons.IH [OF this] process_message_None [of cl k ent info strat batch msg] Inr None
      show ?thesis by auto
    next
      case (Some d)
      with Inr Cons.prems
      have "process_messages cl k ent info strat batch rest (acc @ [d]) = Inr res"
        by simp
      from Cons.IH [OF this] obtain new where
        new: "res = (acc @ [d]) @ new"
          "map md_id new = map msg_id (filter (\<lambda>m. skipped strat m = Inr False) rest)"
          "map md_date new = map (\<lambda>m. isoformat (msg_date m)) (filter (\<lambda>m. skipped strat m = Inr False) rest)"
          "\<forall>d \<in> set new. md_channel_id d = ent_id ent"
        by blast
      from process_message_Some [of cl k ent info strat batch msg d] Inr Some
      have d: "skipped strat msg = Inr False" "md_id d = msg_id msg" "md_channel_id d = ent_id ent"
        "md_date d = isoformat (msg_date msg)"
        by simp_all
      show ?thesis
        by (rule exI [of _ "d # new"]) (use new d in simp)
    qed
  qed
qed

lemma newest_id_fold:
  "fold (\<lambda>x acc. if acc < md_id x then md_id x else acc) ms a = Max (insert a (md_id ` set ms))"
proof (induction ms arbitrary: a)
  case Nil
  then show ?case by simp
next
  case (Cons x xs)
  have "Max (insert (if a < md_id x then md_id x else a) (md_id ` set xs))
      = Max (insert a (insert (md_id x) (md_id ` set xs)))"
  proof -
    have "insert a (insert (md_id x) (md_id ` set xs)) = {a, md_id x} \<union> (md_id ` set xs)" by auto
    show ?thesis
    proof (cases "xs = []")
      case True
      then show ?thesis by (simp add: max_def)
    next
      case False
      then show ?thesis by (auto simp: max_def)
    qed
  qed
  with Cons show ?case by simp
qed

lemma newest_id_Max: "newest_id m ms = Max (md_id ` set (m # ms))"
  by (simp add: newest_id_def newest_id_fold)

subsection \<open>One channel and the channel loop\<close>

lemma process_channel_Inr:
  assumes "process_channel cl k limit fh tr u = Inr (tr', ms)"
  shows "\<exists>ent info strat msgs.
           get_entity cl k u = Inr ent
         \<and> choose_strategy cl k fh tr (str_int (ent_id ent)) = Inr strat
         \<and> get_history cl k ent (history_request_of limit strat) = Inr msgs
         \<and> process_messages cl k ent info strat msgs msgs [] = Inr ms
         \<and> tr' = update_tracking tr (str_int (ent_id ent)) strat ms"
  using assms
  by (auto simp: process_channel_def Let_def split: sum.splits)

lemma choose_strategy_IdTracking:
  "choose_strategy cl k fh tr key = Inr (IdTracking w) \<longleftrightarrow> tr key = Some w \<and> 0 < w"
  by (cases "minus_hours (utc_now cl k) fh")
     (auto simp: choose_strategy_def split: option.splits)

lemma choose_strategy_TimeFallback:
  "choose_strategy cl k fh tr key = Inr (TimeFallback s) \<Longrightarrow>
     (\<forall>w. tr key = Some w \<longrightarrow> w \<le> 0) \<and> minus_hours (utc_now cl k) fh = Inr s"
  by (cases "minus_hours (utc_now cl k) fh")
     (auto simp: choose_strategy_def split: option.splits if_splits)

lemma update_tracking_other:
  "key \<noteq> channel_id \<Longrightarrow> update_tracking tr channel_id strat ms key = tr key"
  by (simp add: update_tracking_def split: list.splits strategy.splits)

lemma update_tracking_IdTracking:
  "update_tracking tr channel_id (IdTracking w) ms channel_id =
     (if ms = [] then tr channel_id else Some (Max (insert w (md_id ` set ms))))"
proof (cases ms)
  case Nil
  then show ?thesis by (simp add: update_tracking_def)
next
  case (Cons m rest)
  have "max (Max (md_id ` set (m # rest))) w = Max (insert w (md_id ` set (m # rest)))"
    by (subst Max_insert) (auto simp: max.commute)
  with Cons show ?thesis
    by (simp add: update_tracking_def newest_id_Max)
qed

lemma update_tracking_TimeFallback:
  "update_tracking tr channel_id (TimeFallback s) ms channel_id =
     (if ms = [] then tr channel_id else Some (Max (md_id ` set ms)))"
  by (cases ms) (simp_all add: update_tracking_def newest_id_Max)





subsection \<open>The watermark after a run\<close>


subsection \<open>Loading the tracking file\<close>

text \<open>
  C10.  Loading never raises.  It gives the empty mapping when the file does not exist,
  when opening it raises and when \<^verbatim>\<open>json.load\<close> raises on its text; when the file
  exists, opens and parses, it gives the parsed mapping.
\<close>

theorem load_never_raises:
  "(\<exists>tracking. load_last_message_tracking os file = Inr tracking)
   \<and> (file = None \<longrightarrow> load_last_message_tracking os file = Inr Map.empty)
   \<and> (file \<noteq> None \<longrightarrow> open_read_error os \<noteq> None \<longrightarrow>
        load_last_message_tracking os file = Inr Map.empty)
   \<and> (\<forall>text e. file = Some text \<longrightarrow> open_read_error os = None \<longrightarrow>
        json_load os text = Inl e \<longrightarrow> load_last_message_tracking os file = Inr Map.empty)
   \<and> (\<forall>text m. file = Some text \<longrightarrow> open_read_error os = None \<longrightarrow>
        json_load os text = Inr m \<longrightarrow> load_last_message_tracking os file = Inr m)"
  by (cases "file"; cases "open_read_error os")
     (auto simp: load_last_message_tracking_def split: sum.splits)

subsection \<open>Failures inside one channel\<close>

lemma collect_channels_app:
  "collect_channels cl limit fh k (xs @ ys) tr acc =
     (case collect_channels cl limit fh k xs tr acc of
        (tr1, acc1) \<Rightarrow> collect_channels cl limit fh (k + length xs) ys tr1 acc1)"
proof (induction xs arbitrary: k tr acc)
  case Nil
  then show ?case by simp
next
  case (Cons u rest)
  show ?case
  proof (cases "process_channel cl k limit fh tr u")
    case (Inl e)
    with Cons.IH [of "Suc k" tr acc] show ?thesis by simp
  next
    case (Inr r)
    obtain tr1 ms where "r = (tr1, ms)" by (cases r)
    with Inr Cons.IH [of "Suc k" tr1 "acc @ ms"] show ?thesis by simp
  qed
qed

lemma process_channel_resolution_fails:
  "get_entity cl k u = Inl e \<Longrightarrow> process_channel cl k limit fh tr u = Inl e"
  by (simp add: process_channel_def)

lemma process_channel_fetch_fails:
  assumes "get_entity cl k u = Inr ent"
    and "choose_strategy cl k fh tr (str_int (ent_id ent)) = Inr strat"
    and "get_history cl k ent (history_request_of limit strat) = Inl e"
  shows "\<exists>e'. process_channel cl k limit fh tr u = Inl e'"
  using assms by (simp add: process_channel_def Let_def split: sum.splits)

lemma process_messages_download_fails:
  assumes "m \<in> set msgs" and "skipped strat m = Inr False" and "download_media cl k m = Inl e"
  shows "\<exists>e'. process_messages cl k ent info strat batch msgs acc = Inl e'"
  using assms
proof (induction msgs arbitrary: acc)
  case Nil
  then show ?case by simp
next
  case (Cons x rest)
  show ?case
  proof (cases "process_message cl k ent info strat batch x")
    case (Inl e')
    then show ?thesis by simp
  next
    case (Inr r)
    have "x \<noteq> m"
    proof
      assume "x = m"
      with Cons.prems(2,3) have "process_message cl k ent info strat batch x = Inl e"
        by (simp add: process_message_def)
      with Inr show False by simp
    qed
    with Cons.prems have "m \<in> set rest" by simp
    from Cons.IH [OF this Cons.prems(2,3)] Inr show ?thesis
      by (cases r) simp_all
  qed
qed

lemma process_channel_download_fails:
  assumes "get_entity cl k u = Inr ent"
    and "choose_strategy cl k fh tr (str_int (ent_id ent)) = Inr strat"
    and "get_history cl k ent (history_request_of limit strat) = Inr msgs"
    and "m \<in> set msgs" and "skipped strat m = Inr False" and "download_media cl k m = Inl e"
  shows "\<exists>e'. process_channel cl k limit fh tr u = Inl e'"
proof (cases "get_channel_info cl k u")
  case (Inl e')
  with assms(1) show ?thesis by (simp add: process_channel_def Let_def)
next
  case (Inr info)
  from process_messages_download_fails [OF assms(4,5,6)]
  obtain e' where "process_messages cl k ent info strat msgs msgs [] = Inl e'"
    by blast
  with assms(1,2,3) Inr show ?thesis by (simp add: process_channel_def Let_def)
qed

lemma skipped_TimeFallback:
  "skipped (TimeFallback since) m = Inr (instant (msg_date m) < since)"
  by (cases "dt_tzinfo (msg_date m)")
     (simp_all add: less_than_aware_def replace_tzinfo_utc_def instant_def wall_micros_def
        Let_def)

lemma minus_hours_Inr:
  "minus_hours now h = Inr t \<Longrightarrow> t = now - h * 3600 * 1000000"
  by (auto simp: minus_hours_def Let_def split: if_splits)

text \<open>
  C8.  When the resolution of a channel raises, or its fetch raises, the channel loop
  goes on with the next channel from the tracking and the messages it had before that
  channel: the channel adds no message, its watermark entry is not advanced, and the
  channels before and after it are collected as they would be without it.
\<close>

theorem failing_channel_skipped:
  assumes "collect_channels cl limit fallback_hours k before tracking all_messages
             = (tracking1, messages1)"
    and "get_entity cl (k + length before) username = Inl e
         \<or> (\<exists>ent strat.
               get_entity cl (k + length before) username = Inr ent
             \<and> choose_strategy cl (k + length before) fallback_hours tracking1
                 (str_int (ent_id ent)) = Inr strat
             \<and> get_history cl (k + length before) ent (history_request_of limit strat) = Inl e)"
  shows "collect_channels cl limit fallback_hours k (before @ username # rest)
           tracking all_messages
         = collect_channels cl limit fallback_hours (Suc (k + length before)) rest
             tracking1 messages1"
proof -
  from assms(2)
  obtain e' where
    "process_channel cl (k + length before) limit fallback_hours tracking1 username = Inl e'"
    using process_channel_resolution_fails process_channel_fetch_fails by blast
  with assms(1) show ?thesis
    by (simp add: collect_channels_app)
qed

text \<open>
  C6 (amended).  When the media download of a message raises -- a message that the date
  filter of the fallback does not skip -- the exception is caught by the handler of the
  channel loop only: the loop goes on with the next channel, none of the channel's
  messages is added and its watermark entry is not advanced.
\<close>

theorem media_failure_skips_channel:
  assumes "get_entity cl k username = Inr ent"
    and "choose_strategy cl k fallback_hours tracking (str_int (ent_id ent)) = Inr strat"
    and "get_history cl k ent (history_request_of limit strat) = Inr messages"
    and "msg \<in> set messages" and "skipped strat msg = Inr False"
    and "download_media cl k msg = Inl e"
  shows "collect_channels cl limit fallback_hours k (username # rest) tracking all_messages
         = collect_channels cl limit fallback_hours (Suc k) rest tracking all_messages"
proof -
  from process_channel_download_fails [OF assms]
  obtain e' where "process_channel cl k limit fallback_hours tracking username = Inl e'"
    by blast
  then show ?thesis by simp
qed

subsection \<open>The fallback window\<close>

lemma process_messages_returns:
  assumes "\<forall>m \<in> set msgs. \<exists>b. skipped strat m = Inr b"
    and "\<forall>m \<in> set msgs. skipped strat m = Inr False \<longrightarrow> \<not> isl (download_media cl k m)"
  shows "\<not> isl (process_messages cl k ent info strat batch msgs acc)"
  using assms
proof (induction msgs arbitrary: acc)
  case Nil
  then show ?case by simp
next
  case (Cons x rest)
  from Cons.prems(1) obtain b where b: "skipped strat x = Inr b" by auto
  show ?case
  proof (cases b)
    case True
    with b have "process_message cl k ent info strat batch x = Inr None"
      by (simp add: process_message_def)
    with Cons show ?thesis by simp
  next
    case False
    with b Cons.prems(2) obtain p where "download_media cl k x = Inr p"
      by (cases "download_media cl k x") auto
    with b False obtain d where "process_message cl k ent info strat batch x = Inr (Some d)"
      by (simp add: process_message_def)
    with Cons show ?thesis by simp
  qed
qed

lemma choose_strategy_fallback:
  assumes "\<forall>w. tr key = Some w \<longrightarrow> w \<le> 0"
  shows "choose_strategy cl k fh tr key = map_sum id TimeFallback (minus_hours (utc_now cl k) fh)"
  using assms by (auto simp: choose_strategy_def split: option.splits)

lemma process_channel_returns_fallback:
  assumes ent: "get_entity cl k u = Inr ent"
    and fallback: "\<forall>w. tr (str_int (ent_id ent)) = Some w \<longrightarrow> w \<le> 0"
    and hist: "get_history cl k ent
           \<lparr>req_limit = limit, req_offset_id = 0, req_max_id = 0, req_min_id = 0,
            req_add_offset = 0\<rparr> = Inr msgs"
  shows "\<not> isl (process_channel cl k limit fh tr u) \<longleftrightarrow>
           \<not> isl (get_channel_info cl k u) \<and> \<not> isl (minus_hours (utc_now cl k) fh)
         \<and> (\<forall>m \<in> set msgs. utc_now cl k - fh * 3600 * 1000000 \<le> instant (msg_date m)
               \<longrightarrow> \<not> isl (download_media cl k m))"
proof (cases "get_channel_info cl k u")
  case (Inl e)
  with ent show ?thesis by (simp add: process_channel_def Let_def)
next
  case info: (Inr info)
  show ?thesis
  proof (cases "minus_hours (utc_now cl k) fh")
    case (Inl e)
    moreover from fallback
    have "choose_strategy cl k fh tr (str_int (ent_id ent))
        = map_sum id TimeFallback (minus_hours (utc_now cl k) fh)"
      by (rule choose_strategy_fallback)
    ultimately show ?thesis using ent info
      by (simp add: process_channel_def Let_def)
  next
    case (Inr since)
    then have since: "since = utc_now cl k - fh * 3600 * 1000000"
      by (rule minus_hours_Inr)
    from fallback
    have "choose_strategy cl k fh tr (str_int (ent_id ent))
        = map_sum id TimeFallback (minus_hours (utc_now cl k) fh)"
      by (rule choose_strategy_fallback)
    with Inr
    have strat: "choose_strategy cl k fh tr (str_int (ent_id ent)) = Inr (TimeFallback since)"
      by simp
    have body: "isl (process_channel cl k limit fh tr u)
        = isl (process_messages cl k ent info (TimeFallback since) msgs msgs [])"
      using ent info strat hist
      by (simp add: process_channel_def Let_def split: sum.splits)
    have "\<not> isl (process_messages cl k ent info (TimeFallback since) msgs msgs []) \<longleftrightarrow>
        (\<forall>m \<in> set msgs. since \<le> instant (msg_date m) \<longrightarrow> \<not> isl (download_media cl k m))"
    proof
      assume ok: "\<not> isl (process_messages cl k ent info (TimeFallback since) msgs msgs [])"
      show "\<forall>m \<in> set msgs. since \<le> instant (msg_date m) \<longrightarrow> \<not> isl (download_media cl k m)"
      proof (intro ballI impI notI)
        fix m assume m: "m \<in> set msgs" "since \<le> instant (msg_date m)"
          and "isl (download_media cl k m)"
        then obtain e where "download_media cl k m = Inl e"
          by (cases "download_media cl k m") simp_all
        moreover from m(2) have "skipped (TimeFallback since) m = Inr False"
          by (simp add: skipped_TimeFallback del: skipped.simps)
        ultimately
        have "\<exists>e'. process_messages cl k ent info (TimeFallback since) msgs msgs [] = Inl e'"
          using m(1) by (intro process_messages_download_fails)
        with ok show False by auto
      qed
    next
      assume "\<forall>m \<in> set msgs. since \<le> instant (msg_date m) \<longrightarrow> \<not> isl (download_media cl k m)"
      then show "\<not> isl (process_messages cl k ent info (TimeFallback since) msgs msgs [])"
        by (intro process_messages_returns)
           (auto simp: skipped_TimeFallback simp del: skipped.simps)
    qed
    with body info Inr since show ?thesis by simp
  qed
qed

lemma process_channel_window:
  assumes "get_entity cl k username = Inr ent"
    and "\<forall>w. tracking (str_int (ent_id ent)) = Some w \<longrightarrow> w \<le> 0"
    and "get_history cl k ent
           \<lparr>req_limit = limit, req_offset_id = 0, req_max_id = 0, req_min_id = 0,
            req_add_offset = 0\<rparr> = Inr messages"
    and "process_channel cl k limit fallback_hours tracking username
           = Inr (tracking', channel_messages)"
  shows "map (\<lambda>d. (md_id d, md_date d)) channel_messages =
           map (\<lambda>m. (msg_id m, isoformat (msg_date m)))
             (filter (\<lambda>m. utc_now cl k - fallback_hours * 3600 * 1000000 \<le> instant (msg_date m))
                messages)"
proof -
  from process_channel_Inr [OF assms(4)] assms(1) obtain info strat msgs where
    strat: "choose_strategy cl k fallback_hours tracking (str_int (ent_id ent)) = Inr strat"
    and hist: "get_history cl k ent (history_request_of limit strat) = Inr msgs"
    and pm: "process_messages cl k ent info strat msgs msgs [] = Inr channel_messages"
    by auto
  from strat assms(2) obtain since where since: "strat = TimeFallback since"
    by (cases strat) (auto simp: choose_strategy_IdTracking)
  from strat have "minus_hours (utc_now cl k) fallback_hours = Inr since"
    unfolding since by (rule choose_strategy_TimeFallback [THEN conjunct2])
  then have "since = utc_now cl k - fallback_hours * 3600 * 1000000"
    by (rule minus_hours_Inr)
  then have keep: "(\<lambda>m. skipped strat m = Inr False)
      = (\<lambda>m. utc_now cl k - fallback_hours * 3600 * 1000000 \<le> instant (msg_date m))"
    unfolding since by (auto simp: skipped_TimeFallback fun_eq_iff simp del: skipped.simps)
  from hist since assms(3) have msgs: "msgs = messages" by simp
  from process_messages_Inr [OF pm]
  have "map md_id channel_messages = map msg_id (filter (\<lambda>m. skipped strat m = Inr False) msgs)"
    and "map md_date channel_messages
           = map (\<lambda>m. isoformat (msg_date m)) (filter (\<lambda>m. skipped strat m = Inr False) msgs)"
    by auto
  then have "map (\<lambda>d. (md_id d, md_date d)) channel_messages
      = map (\<lambda>m. (msg_id m, isoformat (msg_date m)))
          (filter (\<lambda>m. skipped strat m = Inr False) msgs)"
    by (simp add: list_eq_iff_nth_eq)
  then show ?thesis unfolding keep msgs .
qed

text \<open>
  C9 (amended).  For a channel without a positive watermark entry: whenever the body
  of the channel returns, the records emitted are, in order, exactly those of the
  fetched messages whose instant is at or after \<^verbatim>\<open>now - fallback_hours\<close>, a naive
  timestamp being read as UTC; so every fetched message strictly older than the bound
  is left out.  The body returns exactly when the lookup of the channel information,
  the computation of the bound and the media download of every fetched message at or
  after the bound all return; when one of them raises, the channel emits no record.
\<close>

theorem fallback_window:
  assumes "get_entity cl k username = Inr ent"
    and "\<forall>w. tracking (str_int (ent_id ent)) = Some w \<longrightarrow> w \<le> 0"
    and "get_history cl k ent
           \<lparr>req_limit = limit, req_offset_id = 0, req_max_id = 0, req_min_id = 0,
            req_add_offset = 0\<rparr> = Inr messages"
  shows "(\<forall>tracking' channel_messages.
            process_channel cl k limit fallback_hours tracking username
              = Inr (tracking', channel_messages) \<longrightarrow>
            map (\<lambda>d. (md_id d, md_date d)) channel_messages =
              map (\<lambda>m. (msg_id m, isoformat (msg_date m)))
                (filter (\<lambda>m. utc_now cl k - fallback_hours * 3600 * 1000000
                               \<le> instant (msg_date m)) messages))
       \<and> (\<not> isl (process_channel cl k limit fallback_hours tracking username) \<longleftrightarrow>
            \<not> isl (get_channel_info cl k username)
          \<and> \<not> isl (minus_hours (utc_now cl k) fallback_hours)
          \<and> (\<forall>m \<in> set messages.
                utc_now cl k - fallback_hours * 3600 * 1000000 \<le> instant (msg_date m)
                \<longrightarrow> \<not> isl (download_media cl k m)))"
proof (intro conjI allI impI)
  fix tracking' channel_messages
  assume "process_channel cl k limit fallback_hours tracking username
            = Inr (tracking', channel_messages)"
  with assms show "map (\<lambda>d. (md_id d, md_date d)) channel_messages =
      map (\<lambda>m. (msg_id m, isoformat (msg_date m)))
        (filter (\<lambda>m. utc_now cl k - fallback_hours * 3600 * 1000000
                       \<le> instant (msg_date m)) messages)"
    by (rule process_channel_window)
next
  from assms
  show "\<not> isl (process_channel cl k limit fallback_hours tracking username) \<longleftrightarrow>
            \<not> isl (get_channel_info cl k username)
          \<and> \<not> isl (minus_hours (utc_now cl k) fallback_hours)
          \<and> (\<forall>m \<in> set messages.
                utc_now cl k - fallback_hours * 3600 * 1000000 \<le> instant (msg_date m)
                \<longrightarrow> \<not> isl (download_media cl k m))"
    by (rule process_channel_returns_fallback)
qed

subsection \<open>Saving the tracking file\<close>

lemma write_states_prefix:
  "s \<in> set (write_states werr i cs content) \<Longrightarrow> \<exists>rest. content @ concat cs = s @ rest"
proof (induction cs arbitrary: i content)
  case Nil
  then show ?case by simp
next
  case (Cons c cs)
  show ?case
  proof (cases "s = content")
    case True
    then show ?thesis by simp
  next
    case False
    with Cons.prems have "werr i = None" and "s \<in> set (write_states werr (Suc i) cs (content @ c))"
      by (auto split: option.splits)
    from Cons.IH [OF this(2)] show ?thesis by simp
  qed
qed

lemma write_states_first: "hd (write_states werr i cs content) = content"
  by (cases cs) simp_all

lemma write_states_nonempty: "write_states werr i cs content \<noteq> []"
  by (cases cs) simp_all

lemma write_chunks_last:
  "snd (write_chunks werr i cs content) = last (write_states werr i cs content)"
proof (induction cs arbitrary: i content)
  case Nil
  then show ?case by simp
next
  case (Cons c cs)
  then show ?case
    by (cases "werr i") (simp_all add: write_states_nonempty)
qed

lemma write_chunks_complete:
  "\<forall>j. werr j = None \<Longrightarrow> write_chunks werr i cs content = (Inr (), content @ concat cs)"
  by (induction cs arbitrary: i content) simp_all

text \<open>
  C4 (amended).  Saving overwrites the tracking file in place.  A call in which nothing
  raises leaves the complete new text.  While the call runs the file holds either what
  it held before or a beginning of the new text: opening for writing truncates it, so
  right after the open it is empty, and an execution cut short there or between two
  writes leaves that partial text.  The state at the end of a call is the last of
  these states.
\<close>

theorem save_overwrites_in_place:
  "(makedirs_error os = None \<longrightarrow> open_write_error os = None \<longrightarrow> (\<forall>j. write_error os j = None) \<longrightarrow>
      save_last_message_tracking os file tracking_data
        = (Inr (), Some (concat (json_chunks os tracking_data))))
   \<and> last (save_states os file tracking_data) = snd (save_last_message_tracking os file tracking_data)
   \<and> (\<forall>s \<in> set (save_states os file tracking_data).
        s = file \<or> (\<exists>p rest. s = Some p \<and> concat (json_chunks os tracking_data) = p @ rest))
   \<and> (makedirs_error os = None \<longrightarrow> open_write_error os = None \<longrightarrow>
        save_states os file tracking_data ! 1 = Some [])"
proof (intro conjI impI ballI)
  assume "makedirs_error os = None" "open_write_error os = None" "\<forall>j. write_error os j = None"
  then show "save_last_message_tracking os file tracking_data
      = (Inr (), Some (concat (json_chunks os tracking_data)))"
    by (simp add: save_last_message_tracking_def write_chunks_complete)
next
  show "last (save_states os file tracking_data)
      = snd (save_last_message_tracking os file tracking_data)"
    by (simp add: save_states_def save_last_message_tracking_def write_chunks_last
          write_states_nonempty last_map split: option.splits)
next
  fix s assume "s \<in> set (save_states os file tracking_data)"
  then show "s = file \<or> (\<exists>p rest. s = Some p \<and> concat (json_chunks os tracking_data) = p @ rest)"
    by (auto simp: save_states_def split: option.splits dest: write_states_prefix)
next
  assume "makedirs_error os = None" "open_write_error os = None"
  then have "save_states os file tracking_data ! 1
      = Some (hd (write_states (write_error os) 0 (json_chunks os tracking_data) []))"
    by (simp add: save_states_def write_states_nonempty hd_conv_nth)
  then show "save_states os file tracking_data ! 1 = Some []"
    by (simp add: write_states_first)
qed

text \<open>
  C5 (amended).  When \<^verbatim>\<open>os.makedirs\<close> does not raise, a run returns its corpus whether
  or not opening or writing the tracking file raises: what the caller receives is what
  it receives when the write succeeds.
\<close>

theorem write_failure_not_surfaced:
  assumes "makedirs_error os = None"
  shows "fst (get_new_messages_without_duplication cl os file channel_usernames limit fallback_hours)
         = fst (get_new_messages_without_duplication cl
                  (os\<lparr>open_write_error := None, write_error := (\<lambda>i. None)\<rparr>)
                  file channel_usernames limit fallback_hours)
       \<and> (\<exists>corpus. fst (get_new_messages_without_duplication cl os file channel_usernames limit
                           fallback_hours) = Inr corpus)"
  using assms
  by (auto simp: get_new_messages_without_duplication_def load_last_message_tracking_def
        save_last_message_tracking_def split: option.splits sum.splits prod.splits)

subsection \<open>No message twice\<close>

lemma distinct_message_key:
  assumes "distinct (map md_id ms)"
  shows "distinct (map message_key ms)"
proof -
  from assms have "distinct ms" and inj: "inj_on md_id (set ms)"
    by (simp_all add: distinct_map)
  have "inj_on message_key (set ms)"
  proof (rule inj_onI)
    fix x y assume "x \<in> set ms" "y \<in> set ms" "message_key x = message_key y"
    then have "md_id x = md_id y" by (simp add: message_key_def)
    with inj \<open>x \<in> set ms\<close> \<open>y \<in> set ms\<close> show "x = y" by (simp add: inj_on_def)
  qed
  with \<open>distinct ms\<close> show ?thesis by (simp add: distinct_map)
qed

lemma process_channel_invariant:
  assumes ok: "answers_respect_min_id cl"
    and inv: "run_invariant tr0 tr acc"
    and step: "process_channel cl k limit fh tr u = Inr (tr', ms)"
  shows "run_invariant tr0 tr' (acc @ ms)"
proof -
  from process_channel_Inr [OF step] obtain ent info strat msgs where
    ent: "get_entity cl k u = Inr ent"
    and strat: "choose_strategy cl k fh tr (str_int (ent_id ent)) = Inr strat"
    and hist: "get_history cl k ent (history_request_of limit strat) = Inr msgs"
    and pm: "process_messages cl k ent info strat msgs msgs [] = Inr ms"
    and tr': "tr' = update_tracking tr (str_int (ent_id ent)) strat ms"
    by blast
  let ?K = "str_int (ent_id ent)"
  from process_messages_Inr [OF pm]
  have ids: "map md_id ms = map msg_id (filter (\<lambda>m. skipped strat m = Inr False) msgs)"
    and chan: "\<forall>d \<in> set ms. md_channel_id d = ent_id ent"
    by auto
  from ok hist have dist_msgs: "distinct (map msg_id msgs)"
    and pos_msgs: "\<forall>m \<in> set msgs. 0 < msg_id m"
    and min_msgs: "\<forall>m \<in> set msgs. 0 < req_min_id (history_request_of limit strat) \<longrightarrow>
                     req_min_id (history_request_of limit strat) \<le> msg_id m"
    unfolding answers_respect_min_id_def by blast+
  have sub: "md_id ` set ms \<subseteq> msg_id ` set msgs"
  proof -
    have "md_id ` set ms = set (map md_id ms)" by simp
    also have "\<dots> \<subseteq> msg_id ` set msgs" unfolding ids by auto
    finally show ?thesis .
  qed
  have dist_ms: "distinct (map md_id ms)"
    unfolding ids using dist_msgs by (rule distinct_map_filter)
  have pos_ms: "0 < md_id d" if "d \<in> set ms" for d
    using that sub pos_msgs by auto
  have key_ms: "tracking_key d = ?K" if "d \<in> set ms" for d
    using that chan by (simp add: tracking_key_def)
  have above: "w < md_id d" if "strat = IdTracking w" "d \<in> set ms" for w d
  proof -
    from that(2) sub obtain m where m: "m \<in> set msgs" "md_id d = msg_id m" by auto
    from that(1) strat have "0 < w" by (simp add: choose_strategy_IdTracking)
    with that(1) m(1) min_msgs have "w + 1 \<le> msg_id m" by auto
    with m(2) show ?thesis by simp
  qed
  have cursor: "strat = IdTracking w" if "tr ?K = Some w" "0 < w" for w
    using that strat
    by (cases strat) (auto simp: choose_strategy_IdTracking dest: choose_strategy_TimeFallback)
  have tr'_K: "\<exists>w'. tr' ?K = Some w' \<and> w \<le> w'" if "tr ?K = Some w" "0 < w" for w
  proof (cases "ms = []")
    case True
    with tr' that show ?thesis by (simp add: update_tracking_def)
  next
    case False
    have "w \<le> Max (insert w (md_id ` set ms))" by (rule Max_ge) simp_all
    with False tr' cursor [OF that] show ?thesis
      by (simp add: update_tracking_IdTracking)
  qed
  have tr'_ms: "\<exists>w'. tr' ?K = Some w' \<and> md_id d \<le> w'" if "d \<in> set ms" for d
  proof -
    from that have ne: "ms \<noteq> []" by auto
    show ?thesis
    proof (cases strat)
      case (IdTracking w)
      have "md_id d \<le> Max (insert w (md_id ` set ms))"
        by (rule Max_ge) (use that in simp_all)
      with IdTracking tr' ne show ?thesis by (simp add: update_tracking_IdTracking)
    next
      case (TimeFallback s)
      have "md_id d \<le> Max (md_id ` set ms)"
        by (rule Max_ge) (use that in simp_all)
      with TimeFallback tr' ne show ?thesis by (simp add: update_tracking_TimeFallback)
    qed
  qed
  from inv have dist_acc: "distinct (map message_key acc)"
    and acc_pos: "\<forall>d \<in> set acc. 0 < md_id d"
    and acc_cov: "\<forall>d \<in> set acc. \<exists>w. tr (tracking_key d) = Some w \<and> md_id d \<le> w"
    and acc_new: "\<forall>d \<in> set acc. \<forall>W. tr0 (tracking_key d) = Some W \<longrightarrow> 0 < W \<longrightarrow> W < md_id d"
    and mono: "\<forall>key W. tr0 key = Some W \<longrightarrow> 0 < W \<longrightarrow> (\<exists>w. tr key = Some w \<and> W \<le> w)"
    unfolding run_invariant_def by blast+
  have disjoint: "message_key d \<noteq> message_key d'" if "d \<in> set acc" "d' \<in> set ms" for d d'
  proof
    assume eq: "message_key d = message_key d'"
    with chan that(2) have "tracking_key d = ?K" and same: "md_id d = md_id d'"
      by (simp_all add: message_key_def tracking_key_def)
    with acc_cov acc_pos that(1) obtain w where w: "tr ?K = Some w" "md_id d \<le> w" "0 < w"
      by force
    from above [OF cursor [OF w(1,3)] that(2)] w(2) same show False by simp
  qed
  have "distinct (map message_key (acc @ ms))"
    using dist_acc distinct_message_key [OF dist_ms] disjoint by (fastforce simp: image_iff)
  moreover have "0 < md_id d" if "d \<in> set (acc @ ms)" for d
    using that acc_pos pos_ms by auto
  moreover have "\<exists>w. tr' (tracking_key d) = Some w \<and> md_id d \<le> w" if "d \<in> set (acc @ ms)" for d
  proof (cases "d \<in> set ms")
    case True
    with tr'_ms key_ms show ?thesis by simp
  next
    case False
    with that have d: "d \<in> set acc" by simp
    with acc_cov acc_pos obtain w where w: "tr (tracking_key d) = Some w" "md_id d \<le> w" "0 < w"
      by force
    show ?thesis
    proof (cases "tracking_key d = ?K")
      case True
      with tr'_K [of w] w obtain w' where "tr' ?K = Some w'" "w \<le> w'" by auto
      with True w(2) show ?thesis by auto
    next
      case False
      with tr' w show ?thesis by (simp add: update_tracking_other)
    qed
  qed
  moreover have "W < md_id d"
    if "d \<in> set (acc @ ms)" "tr0 (tracking_key d) = Some W" "0 < W" for d W
  proof (cases "d \<in> set ms")
    case True
    with that key_ms have "tr0 ?K = Some W" by simp
    with mono that(3) obtain w where w: "tr ?K = Some w" "W \<le> w" by blast
    with that(3) have "0 < w" by simp
    from above [OF cursor [OF w(1) this] True] w(2) show ?thesis by simp
  next
    case False
    with that acc_new show ?thesis by auto
  qed
  moreover have "\<exists>w. tr' key = Some w \<and> W \<le> w" if "tr0 key = Some W" "0 < W" for key W
  proof -
    from mono that obtain w where w: "tr key = Some w" "W \<le> w" by blast
    show ?thesis
    proof (cases "key = ?K")
      case True
      from w that(2) have "0 < w" by simp
      with tr'_K [of w] w True obtain w' where "tr' ?K = Some w'" "w \<le> w'" by auto
      with True w(2) show ?thesis by auto
    next
      case False
      with tr' w show ?thesis by (simp add: update_tracking_other)
    qed
  qed
  ultimately show ?thesis
    unfolding run_invariant_def by blast
qed

lemma collect_channels_invariant:
  assumes "answers_respect_min_id cl"
    and "run_invariant tr0 tr acc"
    and "collect_channels cl limit fh k us tr acc = (tr', acc')"
  shows "run_invariant tr0 tr' acc'"
  using assms(2,3)
proof (induction us arbitrary: k tr acc)
  case Nil
  then show ?case by simp
next
  case (Cons u rest)
  show ?case
  proof (cases "process_channel cl k limit fh tr u")
    case (Inl e)
    with Cons.prems(2) have "collect_channels cl limit fh (Suc k) rest tr acc = (tr', acc')"
      by simp
    from Cons.IH [OF Cons.prems(1) this] show ?thesis .
  next
    case (Inr r)
    obtain tr1 ms where r: "r = (tr1, ms)" by (cases r)
    with Inr have step: "process_channel cl k limit fh tr u = Inr (tr1, ms)" by simp
    with Cons.prems(2)
    have run: "collect_channels cl limit fh (Suc k) rest tr1 (acc @ ms) = (tr', acc')"
      by simp
    from Cons.IH [OF process_channel_invariant [OF assms(1) Cons.prems(1) step] run]
    show ?thesis .
  qed
qed

lemma run_invariant_start: "run_invariant tr tr []"
  by (simp add: run_invariant_def)

lemma run_Inr:
  assumes "load_last_message_tracking os file = Inr tracking"
    and "fst (get_new_messages_without_duplication cl os file us limit fh) = Inr corpus"
  shows "corpus = sort_key md_date (snd (collect_channels cl limit fh 0 us tracking []))"
  using assms
  by (auto simp: get_new_messages_without_duplication_def split: prod.splits sum.splits)

text \<open>
  C2.  Against a server whose answers hold positive ids, hold no id twice and do not go
  below a positive \<^verbatim>\<open>min_id\<close>, the corpus of a run holds at most one record for each
  pair of channel id and message id, whatever the list of handles is (a channel may
  occur in it more than once), and no record of a channel that started the run with
  a positive watermark has an id at or below that watermark.
\<close>

theorem corpus_without_duplicates:
  assumes "answers_respect_min_id cl"
    and "load_last_message_tracking os file = Inr tracking"
    and "fst (get_new_messages_without_duplication cl os file channel_usernames limit
                fallback_hours) = Inr corpus"
  shows "distinct (map message_key corpus)
         \<and> (\<forall>d \<in> set corpus. \<forall>W. tracking (tracking_key d) = Some W \<longrightarrow> 0 < W \<longrightarrow> W < md_id d)"
proof -
  let ?run = "collect_channels cl limit fallback_hours 0 channel_usernames tracking []"
  have "?run = (fst ?run, snd ?run)" by simp
  from collect_channels_invariant [OF assms(1) run_invariant_start this]
  have inv: "run_invariant tracking (fst ?run) (snd ?run)" .
  from run_Inr [OF assms(2,3)] have corpus: "corpus = sort_key md_date (snd ?run)" .
  from inv have "distinct (map message_key (snd ?run))"
    unfolding run_invariant_def by blast
  then have "distinct (map message_key corpus)"
    unfolding corpus by (simp add: distinct_map)
  moreover from inv
  have "\<forall>d \<in> set corpus. \<forall>W. tracking (tracking_key d) = Some W \<longrightarrow> 0 < W \<longrightarrow> W < md_id d"
    unfolding corpus run_invariant_def by simp
  ultimately show ?thesis by blast
qed

subsection \<open>The order of the corpus\<close>

text \<open>
  The zero-padded decimal fields of \<^verbatim>\<open>isoformat\<close> order as the numbers do, so for
  valid datetimes that are naive or aware with offset zero the order of the texts is
  the order of the fields, and that is the order of the instants.
\<close>

lemma digit_char_less:
  assumes "a < b" "b < 10"
  shows "digit_char a < digit_char b"
proof -
  have "sorted_wrt (<) ''0123456789''"
    by simp
  from sorted_wrt_nth_less [OF this assms(1)] assms show ?thesis
    by (simp add: digit_char_def)
qed

lemma zpad_Suc:
  assumes "0 < w"
  shows "zpad (Suc w) n = zpad w (n div 10) @ [digit_char (n mod 10)]"
proof (cases "n < 10")
  case True
  then have "str_nat n = [digit_char n]" "str_nat (n div 10) = [digit_char 0]"
    by (simp_all add: str_nat.simps)
  moreover have "replicate (w - Suc 0) CHR ''0'' @ [digit_char 0] = replicate w CHR ''0''"
    using assms by (cases w) (simp_all add: digit_char_def replicate_append_same)
  ultimately show ?thesis using True by (simp add: zpad_def)
next
  case False
  then have "str_nat n = str_nat (n div 10) @ [digit_char (n mod 10)]"
    by (subst str_nat.simps) simp
  then show ?thesis by (simp add: zpad_def)
qed

lemma zpad_1: "n < 10 \<Longrightarrow> zpad (Suc 0) n = [digit_char n]"
  by (simp add: zpad_def str_nat.simps)

lemma length_zpad: "0 < w \<Longrightarrow> n < 10 ^ w \<Longrightarrow> length (zpad w n) = w"
proof (induction w arbitrary: n)
  case 0
  then show ?case by simp
next
  case (Suc w)
  show ?case
  proof (cases "w = 0")
    case True
    with Suc.prems show ?thesis by (simp add: zpad_1)
  next
    case False
    from Suc.prems have "n div 10 < 10 ^ w"
      by (simp add: less_mult_imp_div_less mult.commute)
    with Suc.IH False show ?thesis by (simp add: zpad_Suc)
  qed
qed

lemma less_append_same_length:
  fixes p q :: string
  assumes "p < q" "length p = length q"
  shows "p @ x < q @ y"
  using assms unfolding list_less_def by (intro lexord_sufI) simp_all

lemma less_append_same_prefix:
  fixes x y :: string
  shows "x < y \<Longrightarrow> p @ x < p @ y"
  unfolding list_less_def by (rule lexord_append_leftI)

lemma zpad_less: "0 < w \<Longrightarrow> a < b \<Longrightarrow> b < 10 ^ w \<Longrightarrow> zpad w a < zpad w b"
proof (induction w arbitrary: a b)
  case 0
  then show ?case by simp
next
  case (Suc w)
  show ?case
  proof (cases "w = 0")
    case True
    with Suc.prems show ?thesis by (simp add: zpad_1 digit_char_less)
  next
    case False
    from Suc.prems have b: "b div 10 < 10 ^ w"
      by (simp add: less_mult_imp_div_less mult.commute)
    from Suc.prems have "a div 10 \<le> b div 10"
      by (simp add: div_le_mono)
    then consider "a div 10 < b div 10" | "a div 10 = b div 10" by linarith
    then show ?thesis
    proof cases
      case 1
      with Suc.IH False b have less: "zpad w (a div 10) < zpad w (b div 10)" by simp
      from 1 b have "a div 10 < 10 ^ w" by simp
      with b False have "length (zpad w (a div 10)) = length (zpad w (b div 10))"
        by (simp add: length_zpad)
      with less show ?thesis using False
        by (simp add: zpad_Suc less_append_same_length)
    next
      case 2
      with Suc.prems(2) have "a mod 10 < b mod 10"
        by (metis div_mult_mod_eq nat_add_left_cancel_less)
      then have "digit_char (a mod 10) < digit_char (b mod 10)"
        by (simp add: digit_char_less)
      with 2 False show ?thesis
        by (simp add: zpad_Suc less_append_same_prefix)
    qed
  qed
qed

lemma field_less:
  assumes "a < b" "b < 10 ^ w" "0 < w"
  shows "zpad w a @ x < zpad w b @ y"
proof -
  from assms have "zpad w a < zpad w b" by (simp add: zpad_less)
  moreover from assms have "length (zpad w a) = length (zpad w b)"
    by (simp add: length_zpad)
  ultimately show ?thesis by (rule less_append_same_length)
qed

lemma tz_suffix_less_dot: "tz_suffix tz < CHR ''.'' # x"
  by (cases tz) (simp_all add: tz_suffix_def format_offset_def Let_def)

lemma cons_less: "x < y \<Longrightarrow> c # x < (c::char) # y"
  by simp

lemma isoformat_nested:
  "isoformat d =
     zpad 4 (dt_year d) @ CHR ''-'' # zpad 2 (dt_month d) @ CHR ''-'' # zpad 2 (dt_day d) @ CHR ''T''
       # zpad 2 (dt_hour d) @ CHR '':'' # zpad 2 (dt_minute d) @ CHR '':'' # zpad 2 (dt_second d)
       @ (if dt_microsecond d \<noteq> 0 then CHR ''.'' # zpad 6 (dt_microsecond d) else [])
       @ tz_suffix (dt_tzinfo d)"
  by (simp add: isoformat_def)

lemma fraction_less:
  assumes "ua < ub" "ub < 1000000"
  shows "(if ua \<noteq> 0 then CHR ''.'' # zpad 6 ua else []) @ tz_suffix tza
       < (if ub \<noteq> 0 then CHR ''.'' # zpad 6 ub else []) @ tz_suffix tzb"
proof (cases "ua = 0")
  case True
  with assms show ?thesis by (simp add: tz_suffix_less_dot)
next
  case False
  from assms have "zpad 6 ua @ tz_suffix tza < zpad 6 ub @ tz_suffix tzb"
    by (intro field_less) simp_all
  with False assms show ?thesis by simp
qed

lemma days_in_month_le: "month - 1 < 12 \<Longrightarrow> days_in_month year month \<le> 31"
proof -
  assume "month - 1 < 12"
  then have "month - 1 \<in> set [0..<12]" by simp
  then show ?thesis
    by (simp add: days_in_month_def upt_rec numeral_eq_Suc) (elim disjE; simp)
qed

lemma valid_datetime_bounds:
  assumes b: "valid_datetime b"
  shows "dt_year b < 10 ^ 4" "dt_month b < 10 ^ 2" "dt_day b < 10 ^ 2"
    "dt_hour b < 10 ^ 2" "dt_minute b < 10 ^ 2" "dt_second b < 10 ^ 2"
    "dt_microsecond b < 1000000"
proof -
  from b have m: "dt_month b - 1 < 12" and d: "dt_day b \<le> days_in_month (dt_year b) (dt_month b)"
    by (auto simp: valid_datetime_def)
  from days_in_month_le [OF m] d have "dt_day b \<le> 31" by (rule le_trans [rotated])
  with b show "dt_year b < 10 ^ 4" "dt_month b < 10 ^ 2" "dt_day b < 10 ^ 2"
    "dt_hour b < 10 ^ 2" "dt_minute b < 10 ^ 2" "dt_second b < 10 ^ 2"
    "dt_microsecond b < 1000000"
    by (auto simp: valid_datetime_def)
qed

lemma dt_fields_less_cases:
  assumes "dt_fields a < dt_fields b"
  shows "dt_year a < dt_year b
    \<or> dt_year a = dt_year b \<and> (dt_month a < dt_month b
    \<or> dt_month a = dt_month b \<and> (dt_day a < dt_day b
    \<or> dt_day a = dt_day b \<and> (dt_hour a < dt_hour b
    \<or> dt_hour a = dt_hour b \<and> (dt_minute a < dt_minute b
    \<or> dt_minute a = dt_minute b \<and> (dt_second a < dt_second b
    \<or> dt_second a = dt_second b \<and> dt_microsecond a < dt_microsecond b)))))"
  using assms by (simp add: dt_fields_def)

lemma isoformat_less:
  assumes a: "valid_datetime a" and b: "valid_datetime b"
    and less: "dt_fields a < dt_fields b"
  shows "isoformat a < isoformat b"
proof -
  note bounds = valid_datetime_bounds [OF b]
  note pos = zero_less_numeral
  from dt_fields_less_cases [OF less] consider
      (year) "dt_year a < dt_year b"
    | (month) "dt_year a = dt_year b" "dt_month a < dt_month b"
    | (day) "dt_year a = dt_year b" "dt_month a = dt_month b" "dt_day a < dt_day b"
    | (hour) "dt_year a = dt_year b" "dt_month a = dt_month b" "dt_day a = dt_day b"
        "dt_hour a < dt_hour b"
    | (minute) "dt_year a = dt_year b" "dt_month a = dt_month b" "dt_day a = dt_day b"
        "dt_hour a = dt_hour b" "dt_minute a < dt_minute b"
    | (second) "dt_year a = dt_year b" "dt_month a = dt_month b" "dt_day a = dt_day b"
        "dt_hour a = dt_hour b" "dt_minute a = dt_minute b" "dt_second a < dt_second b"
    | (micro) "dt_year a = dt_year b" "dt_month a = dt_month b" "dt_day a = dt_day b"
        "dt_hour a = dt_hour b" "dt_minute a = dt_minute b" "dt_second a = dt_second b"
        "dt_microsecond a < dt_microsecond b"
    by blast
  then show ?thesis
  proof cases
    case year
    show ?thesis
      unfolding isoformat_nested
      by (rule field_less [OF year bounds(1) pos])
  next
    case month
    show ?thesis
      unfolding isoformat_nested month(1)
      by (intro less_append_same_prefix cons_less field_less [OF month(2) bounds(2) pos])
  next
    case day
    show ?thesis
      unfolding isoformat_nested day(1,2)
      by (intro less_append_same_prefix cons_less field_less [OF day(3) bounds(3) pos])
  next
    case hour
    show ?thesis
      unfolding isoformat_nested hour(1,2,3)
      by (intro less_append_same_prefix cons_less field_less [OF hour(4) bounds(4) pos])
  next
    case minute
    show ?thesis
      unfolding isoformat_nested minute(1,2,3,4)
      by (intro less_append_same_prefix cons_less field_less [OF minute(5) bounds(5) pos])
  next
    case second
    show ?thesis
      unfolding isoformat_nested second(1,2,3,4,5)
      by (intro less_append_same_prefix cons_less field_less [OF second(6) bounds(6) pos])
  next
    case micro
    show ?thesis
      unfolding isoformat_nested micro(1,2,3,4,5,6)
      by (intro less_append_same_prefix cons_less fraction_less [OF micro(7) bounds(7)])
  qed
qed

lemma days_before_month_Suc:
  assumes "1 \<le> m" "m \<le> 11"
  shows "days_before_month y (Suc m) = days_before_month y m + int (days_in_month y m)"
proof (cases "m = 2")
  case True
  then show ?thesis
    by (simp add: days_before_month_def days_in_month_def)
next
  case False
  let ?T = "[31, 28, 31, 30, 31, 30, 31, 31, 30, 31, 30, 31] :: nat list"
  from assms obtain k where k: "m = Suc k" "k < length ?T"
    by (cases m) simp_all
  have "take (Suc k) ?T = take k ?T @ [?T ! k]"
    using k(2) by (rule take_Suc_conv_app_nth)
  then have "sum_list (take (Suc k) ?T) = sum_list (take k ?T) + ?T ! k"
    by (simp del: take_Suc_Cons)
  moreover from False assms have "(2 < Suc m) = (2 < m)"
    by auto
  ultimately show ?thesis
    using False unfolding days_before_month_def days_in_month_def k(1)
    by (simp del: take_Suc_Cons)
qed

lemma days_before_month_12:
  "days_before_month y 12 + int (days_in_month y 12) = 365 + (if is_leap y then 1 else 0)"
  by (simp add: days_before_month_def days_in_month_def)

lemma days_before_month_1: "days_before_month y 1 = 0"
  by (simp add: days_before_month_def)

lemma days_before_month_mono_aux:
  "1 \<le> m1 \<Longrightarrow> Suc m1 + k \<le> 12
   \<Longrightarrow> days_before_month y m1 + int (days_in_month y m1) \<le> days_before_month y (Suc m1 + k)"
proof (induction k)
  case 0
  then show ?case by (simp add: days_before_month_Suc)
next
  case (Suc k)
  then have "days_before_month y m1 + int (days_in_month y m1) \<le> days_before_month y (Suc m1 + k)"
    by simp
  also from Suc.prems
  have "days_before_month y (Suc (Suc m1 + k))
      = days_before_month y (Suc m1 + k) + int (days_in_month y (Suc m1 + k))"
    by (simp add: days_before_month_Suc)
  then have "days_before_month y (Suc m1 + k) \<le> days_before_month y (Suc m1 + Suc k)"
    by simp
  finally show ?case .
qed

lemma days_before_month_mono:
  assumes "1 \<le> m1" "m1 < m2" "m2 \<le> 12"
  shows "days_before_month y m1 + int (days_in_month y m1) \<le> days_before_month y m2"
proof -
  from assms have "Suc m1 + (m2 - Suc m1) = m2" by simp
  with days_before_month_mono_aux [of m1 "m2 - Suc m1" y] assms show ?thesis by simp
qed

lemma day_of_year_le:
  assumes "1 \<le> m" "m \<le> 12"
  shows "days_before_month y m + int (days_in_month y m) \<le> 365 + (if is_leap y then 1 else 0)"
proof (cases "m = 12")
  case True
  then show ?thesis by (simp only: days_before_month_12)
next
  case False
  with assms have "m < 12" by simp
  from days_before_month_mono [OF assms(1) this, of y] have
    "days_before_month y m + int (days_in_month y m) \<le> days_before_month y 12"
    by simp
  also have "\<dots> \<le> days_before_month y 12 + int (days_in_month y 12)" by simp
  finally show ?thesis by (simp only: days_before_month_12)
qed

lemma days_before_month_nonneg: "0 \<le> days_before_month y m"
  by (simp add: days_before_month_def)

lemma days_before_year_Suc:
  assumes "1 \<le> y"
  shows "days_before_year (Suc y) = days_before_year y + 365 + (if is_leap y then 1 else 0)"
proof -
  from assms obtain n where y: "y = Suc n" by (cases y) simp_all
  have "days_before_year (Suc n) = int (n * 365 + n div 4 + n div 400) - int (n div 100)" for n
    by (simp add: days_before_year_def Let_def zdiv_int)
  moreover have "n mod 4 = n mod 100 mod 4" "n mod 100 = n mod 400 mod 100"
    by (simp_all add: mod_mod_cancel)
  ultimately show ?thesis
    unfolding y by (auto simp: is_leap_def div_Suc mod_Suc)
qed

lemma days_before_year_mono_aux:
  "1 \<le> y \<Longrightarrow> days_before_year (Suc y) \<le> days_before_year (Suc y + k)"
proof (induction k)
  case 0
  then show ?case by simp
next
  case (Suc k)
  then have "days_before_year (Suc y) \<le> days_before_year (Suc y + k)" by simp
  also have "\<dots> \<le> days_before_year (Suc (Suc y + k))"
    by (subst days_before_year_Suc [of "Suc y + k"]) simp_all
  finally show ?case by simp
qed

lemma days_before_year_mono:
  assumes "1 \<le> y1" "y1 < y2"
  shows "days_before_year (Suc y1) \<le> days_before_year y2"
proof -
  from assms have "Suc y1 + (y2 - Suc y1) = y2" by simp
  with days_before_year_mono_aux [OF assms(1), of "y2 - Suc y1"] show ?thesis by simp
qed

lemma ymd2ord_less:
  assumes a: "valid_datetime a" and b: "valid_datetime b"
    and less: "dt_year a < dt_year b
      \<or> dt_year a = dt_year b \<and> (dt_month a < dt_month b
      \<or> dt_month a = dt_month b \<and> dt_day a < dt_day b)"
  shows "ymd2ord (dt_year a) (dt_month a) (dt_day a) < ymd2ord (dt_year b) (dt_month b) (dt_day b)"
proof -
  from a have va: "1 \<le> dt_year a" "1 \<le> dt_month a" "dt_month a \<le> 12"
    "dt_day a \<le> days_in_month (dt_year a) (dt_month a)"
    by (auto simp: valid_datetime_def)
  from b have vb: "1 \<le> dt_month b" "dt_month b \<le> 12" "1 \<le> dt_day b"
    by (auto simp: valid_datetime_def)
  have doy_a: "days_before_month (dt_year a) (dt_month a) + int (dt_day a)
      \<le> days_before_month (dt_year a) (dt_month a)
          + int (days_in_month (dt_year a) (dt_month a))"
    using va(4) by simp
  from less consider
      (year) "dt_year a < dt_year b"
    | (month) "dt_year a = dt_year b" "dt_month a < dt_month b"
    | (day) "dt_year a = dt_year b" "dt_month a = dt_month b" "dt_day a < dt_day b"
    by blast
  then show ?thesis
  proof cases
    case year
    from doy_a day_of_year_le [OF va(2,3), of "dt_year a"]
    have "ymd2ord (dt_year a) (dt_month a) (dt_day a)
        \<le> days_before_year (dt_year a) + 365 + (if is_leap (dt_year a) then 1 else 0)"
      by (simp add: ymd2ord_def)
    also have "\<dots> = days_before_year (Suc (dt_year a))"
      by (simp add: days_before_year_Suc [OF va(1)])
    also have "\<dots> \<le> days_before_year (dt_year b)"
      by (rule days_before_year_mono [OF va(1) year])
    also have "\<dots> < ymd2ord (dt_year b) (dt_month b) (dt_day b)"
      using vb(3) days_before_month_nonneg [of "dt_year b" "dt_month b"]
      by (simp add: ymd2ord_def)
    finally show ?thesis .
  next
    case month
    from days_before_month_mono [OF va(2) month(2) vb(2), of "dt_year a"] doy_a
    have "days_before_month (dt_year a) (dt_month a) + int (dt_day a)
        \<le> days_before_month (dt_year a) (dt_month b)"
      by simp
    with month(1) vb(3) show ?thesis by (simp add: ymd2ord_def)
  next
    case day
    then show ?thesis by (simp add: ymd2ord_def)
  qed
qed

lemma wall_less_day:
  fixes oa ob sa sb ua ub :: int
  assumes "oa + 1 \<le> ob" "sa \<le> 86399" "0 \<le> sb" "ua \<le> 999999" "0 \<le> ub"
  shows "(oa * 86400 + sa) * 1000000 + ua < (ob * 86400 + sb) * 1000000 + ub"
  using assms by (simp add: algebra_simps)

lemma wall_less_second:
  fixes ob sa sb ua ub :: int
  assumes "sa + 1 \<le> sb" "ua \<le> 999999" "0 \<le> ub"
  shows "(ob * 86400 + sa) * 1000000 + ua < (ob * 86400 + sb) * 1000000 + ub"
  using assms by (simp add: algebra_simps)

lemma second_of_day_less:
  fixes ha ma sa hb mb sb :: nat
  assumes "ma \<le> 59" "sa \<le> 59" "mb \<le> 59" "sb \<le> 59"
    and "ha < hb \<or> ha = hb \<and> (ma < mb \<or> ma = mb \<and> sa < sb)"
  shows "int ha * 3600 + int ma * 60 + int sa + 1 \<le> int hb * 3600 + int mb * 60 + int sb"
  using assms by (elim disjE conjE) linarith+

lemma wall_micros_less:
  assumes a: "valid_datetime a" and b: "valid_datetime b"
    and less: "dt_fields a < dt_fields b"
  shows "wall_micros a < wall_micros b"
proof -
  let ?oa = "ymd2ord (dt_year a) (dt_month a) (dt_day a)"
  let ?ob = "ymd2ord (dt_year b) (dt_month b) (dt_day b)"
  let ?sa = "int (dt_hour a) * 3600 + int (dt_minute a) * 60 + int (dt_second a)"
  let ?sb = "int (dt_hour b) * 3600 + int (dt_minute b) * 60 + int (dt_second b)"
  from a have ta: "dt_hour a \<le> 23" "dt_minute a \<le> 59" "dt_second a \<le> 59"
    "dt_microsecond a \<le> 999999"
    by (auto simp: valid_datetime_def)
  from b have tb: "dt_minute b \<le> 59" "dt_second b \<le> 59"
    by (auto simp: valid_datetime_def)
  from ta have sa: "?sa \<le> 86399" by linarith
  have sb: "0 \<le> ?sb" by simp
  from ta have ua: "int (dt_microsecond a) \<le> 999999" by simp
  have ub: "0 \<le> int (dt_microsecond b)" by simp
  have wa: "wall_micros a = (?oa * 86400 + ?sa) * 1000000 + int (dt_microsecond a)"
    and wb: "wall_micros b = (?ob * 86400 + ?sb) * 1000000 + int (dt_microsecond b)"
    by (simp_all add: wall_micros_def)
  note cases = dt_fields_less_cases [OF less]
  show ?thesis
  proof (cases "dt_year a = dt_year b \<and> dt_month a = dt_month b \<and> dt_day a = dt_day b")
    case False
    with cases have "dt_year a < dt_year b
      \<or> dt_year a = dt_year b \<and> (dt_month a < dt_month b
      \<or> dt_month a = dt_month b \<and> dt_day a < dt_day b)"
      by blast
    from ymd2ord_less [OF a b this] have "?oa + 1 \<le> ?ob" by simp
    then show ?thesis
      unfolding wa wb using sa sb ua ub by (rule wall_less_day)
  next
    case True
    then have same: "?oa = ?ob" by simp
    show ?thesis
    proof (cases "dt_hour a = dt_hour b \<and> dt_minute a = dt_minute b \<and> dt_second a = dt_second b")
      case False
      with True cases have "dt_hour a < dt_hour b
        \<or> dt_hour a = dt_hour b \<and> (dt_minute a < dt_minute b
        \<or> dt_minute a = dt_minute b \<and> dt_second a < dt_second b)"
        by auto
      from second_of_day_less [OF ta(2,3) tb this]
      show ?thesis
        unfolding wa wb same using ua ub by (rule wall_less_second)
    next
      case False2: True
      with True cases have "dt_microsecond a < dt_microsecond b" by simp
      with True False2 show ?thesis
        unfolding wa wb by simp
    qed
  qed
qed

lemma isoformat_le_instant:
  assumes a: "utc_or_naive a" and b: "utc_or_naive b"
    and le: "isoformat a \<le> isoformat b"
  shows "instant a \<le> instant b"
proof -
  from a b have valid: "valid_datetime a" "valid_datetime b"
    and inst: "instant a = wall_micros a" "instant b = wall_micros b"
    by (auto simp: utc_or_naive_def instant_def)
  consider "dt_fields a < dt_fields b" | "dt_fields a = dt_fields b" | "dt_fields b < dt_fields a"
    by (rule linorder_cases)
  then show ?thesis
  proof cases
    case 1
    from wall_micros_less [OF valid this] inst show ?thesis by simp
  next
    case 2
    then have "wall_micros a = wall_micros b"
      by (simp add: dt_fields_def wall_micros_def)
    with inst show ?thesis by simp
  next
    case 3
    from isoformat_less [OF valid(2,1) this] le show ?thesis by simp
  qed
qed

lemma process_messages_sources:
  assumes "process_messages cl k ent info strat batch msgs acc = Inr res"
    and "\<forall>d \<in> set acc. \<exists>m \<in> S. md_id d = msg_id m \<and> md_date d = isoformat (msg_date m)"
    and "set msgs \<subseteq> S"
  shows "\<forall>d \<in> set res. \<exists>m \<in> S. md_id d = msg_id m \<and> md_date d = isoformat (msg_date m)"
  using assms
proof (induction msgs arbitrary: acc)
  case Nil
  then show ?case by simp
next
  case (Cons x rest)
  show ?case
  proof (cases "process_message cl k ent info strat batch x")
    case (Inl e)
    with Cons.prems(1) show ?thesis by simp
  next
    case (Inr r)
    show ?thesis
    proof (cases r)
      case None
      with Inr Cons.prems have "process_messages cl k ent info strat batch rest acc = Inr res"
        by simp
      from Cons.IH [OF this Cons.prems(2)] Cons.prems(3) show ?thesis by simp
    next
      case (Some d)
      with Inr Cons.prems
      have run: "process_messages cl k ent info strat batch rest (acc @ [d]) = Inr res"
        by simp
      from process_message_Some [of cl k ent info strat batch x d] Inr Some
      have "md_id d = msg_id x" "md_date d = isoformat (msg_date x)"
        by simp_all
      with Cons.prems(2,3)
      have "\<forall>d' \<in> set (acc @ [d]).
          \<exists>m \<in> S. md_id d' = msg_id m \<and> md_date d' = isoformat (msg_date m)"
        by auto
      from Cons.IH [OF run this] Cons.prems(3) show ?thesis by simp
    qed
  qed
qed

lemma collect_channels_sources:
  assumes "\<forall>d \<in> set acc. \<exists>m. (\<exists>k ent r ms. get_history cl k ent r = Inr ms \<and> m \<in> set ms)
             \<and> md_id d = msg_id m \<and> md_date d = isoformat (msg_date m)"
  shows "\<forall>d \<in> set (snd (collect_channels cl limit fh k us tr acc)).
           \<exists>m. (\<exists>k ent r ms. get_history cl k ent r = Inr ms \<and> m \<in> set ms)
             \<and> md_id d = msg_id m \<and> md_date d = isoformat (msg_date m)"
  using assms
proof (induction us arbitrary: k tr acc)
  case Nil
  then show ?case by simp
next
  case (Cons u rest)
  let ?S = "{m. \<exists>k ent r ms. get_history cl k ent r = Inr ms \<and> m \<in> set ms}"
  show ?case
  proof (cases "process_channel cl k limit fh tr u")
    case (Inl e)
    with Cons.IH [OF Cons.prems, of "Suc k" tr] show ?thesis by simp
  next
    case (Inr p)
    obtain tr1 ms where p: "p = (tr1, ms)" by (cases p)
    with Inr have step: "process_channel cl k limit fh tr u = Inr (tr1, ms)" by simp
    from process_channel_Inr [OF step] obtain ent info strat msgs where
      hist: "get_history cl k ent (history_request_of limit strat) = Inr msgs"
      and pm: "process_messages cl k ent info strat msgs msgs [] = Inr ms"
      by blast
    from hist have "set msgs \<subseteq> ?S" by auto
    with process_messages_sources [OF pm, of ?S]
    have "\<forall>d \<in> set ms. \<exists>m \<in> ?S. md_id d = msg_id m \<and> md_date d = isoformat (msg_date m)"
      by simp
    with Cons.prems
    have "\<forall>d \<in> set (acc @ ms). \<exists>m. (\<exists>k ent r ms. get_history cl k ent r = Inr ms \<and> m \<in> set ms)
             \<and> md_id d = msg_id m \<and> md_date d = isoformat (msg_date m)"
      by auto
    from Cons.IH [OF this, of "Suc k" tr1] step show ?thesis by simp
  qed
qed

text \<open>
  C7.  When the answers of the server hold valid dates that are aware with offset zero
  or naive, in any mix, the corpus that a run returns is in chronological order: its
  records are, one by one, those of fetched messages -- same id, same date text -- and
  the instants of these messages are non-decreasing along the corpus.
\<close>

theorem corpus_chronological:
  assumes "answers_hold_utc_dates cl"
    and "fst (get_new_messages_without_duplication cl os file channel_usernames limit
                fallback_hours) = Inr corpus"
  shows "\<exists>sources.
           map md_id corpus = map msg_id sources
         \<and> map md_date corpus = map (\<lambda>m. isoformat (msg_date m)) sources
         \<and> (\<forall>m \<in> set sources. \<exists>k ent r ms. get_history cl k ent r = Inr ms \<and> m \<in> set ms)
         \<and> sorted (map (\<lambda>m. instant (msg_date m)) sources)"
proof -
  from assms(2) obtain tracking where load: "load_last_message_tracking os file = Inr tracking"
    by (cases "load_last_message_tracking os file")
       (simp_all add: get_new_messages_without_duplication_def)
  from run_Inr [OF load assms(2)]
  have corpus: "corpus = sort_key md_date
      (snd (collect_channels cl limit fallback_hours 0 channel_usernames tracking []))" .
  have "\<forall>d \<in> set corpus. \<exists>m. (\<exists>k ent r ms. get_history cl k ent r = Inr ms \<and> m \<in> set ms)
          \<and> md_id d = msg_id m \<and> md_date d = isoformat (msg_date m)"
    unfolding corpus set_sort by (rule collect_channels_sources) simp
  then obtain f where f: "\<forall>d \<in> set corpus.
      (\<exists>k ent r ms. get_history cl k ent r = Inr ms \<and> f d \<in> set ms)
      \<and> md_id d = msg_id (f d) \<and> md_date d = isoformat (msg_date (f d))"
    by (rule bchoice [THEN exE])
  let ?sources = "map f corpus"
  have ids: "map md_id corpus = map msg_id ?sources"
    and dates: "map md_date corpus = map (\<lambda>m. isoformat (msg_date m)) ?sources"
    using f by simp_all
  have fetched: "\<forall>m \<in> set ?sources. \<exists>k ent r ms. get_history cl k ent r = Inr ms \<and> m \<in> set ms"
    using f by auto
  with assms(1) have utc: "\<forall>m \<in> set ?sources. utc_or_naive (msg_date m)"
    unfolding answers_hold_utc_dates_def by blast
  have sorted: "sorted (map md_date corpus)"
    unfolding corpus by simp
  have "sorted (map (\<lambda>m. instant (msg_date m)) ?sources)"
    unfolding sorted_iff_nth_mono_less
  proof (intro allI impI)
    fix i j assume ij: "i < j" "j < length (map (\<lambda>m. instant (msg_date m)) ?sources)"
    then have len: "i < length corpus" "j < length corpus" by simp_all
    with ij(1) sorted have "map md_date corpus ! i \<le> map md_date corpus ! j"
      by (intro sorted_nth_mono) simp_all
    with len have "isoformat (msg_date (?sources ! i)) \<le> isoformat (msg_date (?sources ! j))"
      unfolding dates by simp
    moreover from utc len have "utc_or_naive (msg_date (?sources ! i))"
      "utc_or_naive (msg_date (?sources ! j))"
      by simp_all
    ultimately have "instant (msg_date (?sources ! i)) \<le> instant (msg_date (?sources ! j))"
      by (intro isoformat_le_instant)
    with len show "map (\<lambda>m. instant (msg_date m)) ?sources ! i
        \<le> map (\<lambda>m. instant (msg_date m)) ?sources ! j"
      by simp
  qed
  with ids dates fetched show ?thesis by blast
qed

section \<open>Instances\<close>




theorem load_never_raises_witness:
  \<open>load_last_message_tracking plain_os None = Inr Map.empty
   \<and> load_last_message_tracking
        (plain_os\<lparr>open_read_error := Some (Exception ''PermissionError'')\<rparr>)
        (Some ''{"1": 4}'') = Inr Map.empty
   \<and> load_last_message_tracking plain_os (Some ''{"1": '') = Inr Map.empty
   \<and> load_last_message_tracking plain_os (Some ''{"1": 4}'') = Inr [''1'' \<mapsto> 4]\<close>
  using load_never_raises [of plain_os None]
    load_never_raises
      [of "plain_os\<lparr>open_read_error := Some (Exception ''PermissionError'')\<rparr>"
          \<open>Some ''{"1": 4}''\<close>]
    load_never_raises [of plain_os \<open>Some ''{"1": ''\<close>]
    load_never_raises [of plain_os \<open>Some ''{"1": 4}''\<close>]
  by (simp add: plain_os_def)

lemma news_fallback_run:
  "map (\<lambda>d. (md_id d, md_date d, md_media_path d))
     (snd (collect_channels news_client 100 24 1 [''news''] Map.empty []))
   = [(7, ''2024-01-02T11:00:00+00:00'', None),
      (6, ''2024-01-02T10:00:00+00:00'', Some ''media/6_20240102_120000''),
      (5, ''2024-01-02T09:00:00'', None)]"
  by code_simp

theorem failing_channel_skipped_witness:
  "get_entity news_client 0 ''nope'' = Inl (Exception ''ValueError'')
   \<and> map md_id (snd (collect_channels news_client 100 24 0 [''nope'', ''news''] Map.empty []))
       = [7, 6, 5]"
proof -
  have fails: "get_entity news_client 0 ''nope'' = Inl (Exception ''ValueError'')"
    by (simp add: news_client_def)
  have before: "collect_channels news_client 100 24 0 [] Map.empty [] = (Map.empty, [])"
    by simp
  have "collect_channels news_client 100 24 0 ([] @ ''nope'' # [''news'']) Map.empty []
      = collect_channels news_client 100 24 (Suc (0 + length ([] :: string list))) [''news''] Map.empty []"
    by (rule failing_channel_skipped [OF before]) (simp add: fails)
  then have "collect_channels news_client 100 24 0 [''nope'', ''news''] Map.empty []
      = collect_channels news_client 100 24 1 [''news''] Map.empty []"
    by simp
  moreover have "map md_id (snd (collect_channels news_client 100 24 1 [''news''] Map.empty []))
      = map fst (map (\<lambda>d. (md_id d, md_date d, md_media_path d))
          (snd (collect_channels news_client 100 24 1 [''news''] Map.empty [])))"
    by (simp only: map_map comp_def fst_conv)
  then have "map md_id (snd (collect_channels news_client 100 24 1 [''news''] Map.empty []))
      = [7, 6, 5]"
    unfolding news_fallback_run by simp
  ultimately show ?thesis using fails by simp
qed

lemma news_entity_resolves:
  "get_entity news_client k ''news'' = Inr news_entity"
  "get_entity failing_media_client k ''news'' = Inr news_entity"
  by (simp_all add: news_client_def failing_media_client_def)

lemma news_fallback_strategy:
  "choose_strategy news_client 0 24 Map.empty (str_int (ent_id news_entity))
     = Inr (TimeFallback 63839793600000000)"
  "choose_strategy failing_media_client 0 24 Map.empty (str_int (ent_id news_entity))
     = Inr (TimeFallback 63839793600000000)"
  by code_simp+

lemma news_fallback_history:
  "get_history news_client 0 news_entity
     \<lparr>req_limit = 100, req_offset_id = 0, req_max_id = 0, req_min_id = 0, req_add_offset = 0\<rparr>
   = Inr news_store"
  "get_history failing_media_client 0 news_entity
     (history_request_of 100 (TimeFallback 63839793600000000)) = Inr news_store"
  by code_simp+

theorem media_failure_skips_channel_witness:
  "download_media failing_media_client 0 (news_store ! 1) = Inl (Exception ''TimeoutError'')
   \<and> collect_channels failing_media_client 100 24 0 [''news''] Map.empty [] = (Map.empty, [])"
proof -
  have m: "news_store ! 1 \<in> set news_store"
    by (simp add: news_store_def)
  have kept: "skipped (TimeFallback 63839793600000000) (news_store ! 1) = Inr False"
    by code_simp
  have raises: "download_media failing_media_client 0 (news_store ! 1)
      = Inl (Exception ''TimeoutError'')"
    by code_simp
  from media_failure_skips_channel
    [OF news_entity_resolves(2) news_fallback_strategy(2) news_fallback_history(2) m kept raises,
     of "[]" "[]"]
  show ?thesis using raises by simp
qed

theorem media_failure_counterexample:
  "download_media failing_media_client 0 (news_store ! 1) = Inl (Exception ''TimeoutError'')
   \<and> fst (get_new_messages_without_duplication failing_media_client plain_os None
            [''news''] 100 24) = Inr []"
  by code_simp

theorem fallback_window_witness:
  "\<exists>tracking' channel_messages.
     process_channel news_client 0 100 24 Map.empty ''news'' = Inr (tracking', channel_messages)
     \<and> map (\<lambda>d. (md_id d, md_date d)) channel_messages
         = [(7, ''2024-01-02T11:00:00+00:00''), (6, ''2024-01-02T10:00:00+00:00''),
            (5, ''2024-01-02T09:00:00'')]"
proof -
  have fallback: "\<forall>w. Map.empty (str_int (ent_id news_entity)) = Some (w::int) \<longrightarrow> w \<le> 0"
    by simp
  note window = fallback_window [OF news_entity_resolves(1) fallback news_fallback_history(1),
      of 24]
  have "\<not> isl (get_channel_info news_client 0 ''news'')"
    and "\<not> isl (minus_hours (utc_now news_client 0) 24)"
    and "\<forall>m \<in> set news_store.
           utc_now news_client 0 - 24 * 3600 * 1000000 \<le> instant (msg_date m)
           \<longrightarrow> \<not> isl (download_media news_client 0 m)"
    by code_simp+
  with window have "\<not> isl (process_channel news_client 0 100 24 Map.empty ''news'')"
    by blast
  then obtain tracking' channel_messages where
    run: "process_channel news_client 0 100 24 Map.empty ''news'' = Inr (tracking', channel_messages)"
    by (cases "process_channel news_client 0 100 24 Map.empty ''news''") auto
  have kept: "map (\<lambda>m. (msg_id m, isoformat (msg_date m)))
      (filter (\<lambda>m. utc_now news_client 0 - 24 * 3600 * 1000000 \<le> instant (msg_date m)) news_store)
      = [(7, ''2024-01-02T11:00:00+00:00''), (6, ''2024-01-02T10:00:00+00:00''),
         (5, ''2024-01-02T09:00:00'')]"
    by code_simp
  from window run
  have "map (\<lambda>d. (md_id d, md_date d)) channel_messages
      = map (\<lambda>m. (msg_id m, isoformat (msg_date m)))
      (filter (\<lambda>m. utc_now news_client 0 - 24 * 3600 * 1000000 \<le> instant (msg_date m)) news_store)"
    by blast
  then have "map (\<lambda>d. (md_id d, md_date d)) channel_messages
      = [(7, ''2024-01-02T11:00:00+00:00''), (6, ''2024-01-02T10:00:00+00:00''),
         (5, ''2024-01-02T09:00:00'')]"
    unfolding kept .
  with run show ?thesis by (intro exI conjI)
qed

theorem fallback_window_counterexample:
  "get_history failing_media_client 0 news_entity
     \<lparr>req_limit = 100, req_offset_id = 0, req_max_id = 0, req_min_id = 0, req_add_offset = 0\<rparr>
   = Inr news_store
   \<and> msg_id (news_store ! 0) = 7
   \<and> utc_now failing_media_client 0 - 24 * 3600 * 1000000 \<le> instant (msg_date (news_store ! 0))
   \<and> isl (process_channel failing_media_client 0 100 24 Map.empty ''news'')
   \<and> snd (collect_channels failing_media_client 100 24 0 [''news''] Map.empty []) = []
   \<and> fst (get_new_messages_without_duplication failing_media_client plain_os None
            [''news''] 100 24) = Inr []"
  by code_simp

theorem save_not_atomic_counterexample:
  \<open>save_states plain_os (Some ''{"1": 4}'') [''1'' \<mapsto> 7] ! 1 = Some []
   \<and> Some [] \<noteq> Some ''{"1": 4}''
   \<and> Some [] \<noteq> Some (concat (json_chunks plain_os [''1'' \<mapsto> 7]))\<close>
  by code_simp

theorem save_overwrites_in_place_witness:
  \<open>save_last_message_tracking plain_os (Some ''{"1": 4}'') [''1'' \<mapsto> 7]
     = (Inr (), Some ''{"1": 7}'')
   \<and> save_states plain_os (Some ''{"1": 4}'') [''1'' \<mapsto> 7] ! 1 = Some []\<close>
proof -
  have ok: "makedirs_error plain_os = None" "open_write_error plain_os = None"
    "\<forall>j. write_error plain_os j = None"
    by (simp_all add: plain_os_def)
  have new_text: \<open>concat (json_chunks plain_os [''1'' \<mapsto> 7]) = ''{"1": 7}''\<close>
    by code_simp
  from save_overwrites_in_place [of plain_os \<open>Some ''{"1": 4}''\<close> "[''1'' \<mapsto> 7]"] ok
  show ?thesis unfolding new_text by simp
qed

theorem write_failure_counterexample:
  "open_write_error readonly_os = Some (Exception ''PermissionError'')
   \<and> map_sum id (map md_id)
       (fst (get_new_messages_without_duplication news_client readonly_os None [''news''] 100 24))
     = Inr [5, 6, 7]
   \<and> snd (get_new_messages_without_duplication news_client readonly_os None [''news''] 100 24)
     = None"
  by code_simp

theorem write_failure_not_surfaced_witness:
  "makedirs_error readonly_os = None
   \<and> open_write_error readonly_os = Some (Exception ''PermissionError'')
   \<and> (\<exists>corpus. fst (get_new_messages_without_duplication news_client readonly_os None
                      [''news''] 100 24) = Inr corpus)"
proof -
  have ok: "makedirs_error readonly_os = None"
    by (simp add: readonly_os_def plain_os_def)
  have "open_write_error readonly_os = Some (Exception ''PermissionError'')"
    by (simp add: readonly_os_def)
  moreover from write_failure_not_surfaced [OF ok, of news_client None "[''news'']" 100 24]
  have "\<exists>corpus. fst (get_new_messages_without_duplication news_client readonly_os None
                      [''news''] 100 24) = Inr corpus"
    by (rule conjunct2)
  ultimately show ?thesis using ok by (intro conjI)
qed

lemma telegram_history_respects:
  assumes "distinct (map msg_id store)" and "\<forall>m \<in> set store. 0 < msg_id m"
  shows "distinct (map msg_id (telegram_history store r))
         \<and> (\<forall>m \<in> set (telegram_history store r).
               0 < msg_id m \<and> (0 < req_min_id r \<longrightarrow> req_min_id r \<le> msg_id m))"
proof -
  let ?P = "\<lambda>m. (if 0 < req_min_id r then req_min_id r < msg_id m else True)
                 \<and> (if 0 < req_max_id r then msg_id m < req_max_id r else True)"
  have "distinct (map msg_id (filter ?P store))"
    using assms(1) by (rule distinct_map_filter)
  then have "distinct (take (nat (req_limit r)) (map msg_id (filter ?P store)))"
    by (rule distinct_take)
  then have "distinct (map msg_id (telegram_history store r))"
    by (simp add: telegram_history_def take_map)
  moreover have "0 < msg_id m \<and> (0 < req_min_id r \<longrightarrow> req_min_id r \<le> msg_id m)"
    if "m \<in> set (telegram_history store r)" for m
  proof -
    from that have "m \<in> set (filter ?P store)"
      unfolding telegram_history_def by (rule in_set_takeD)
    with assms(2) show ?thesis by auto
  qed
  ultimately show ?thesis by blast
qed

lemma news_client_respects: "answers_respect_min_id news_client"
proof -
  have "distinct (map msg_id news_store)" and "\<forall>m \<in> set news_store. 0 < msg_id m"
    by (simp_all add: news_store_def text_message_def)
  from telegram_history_respects [OF this] show ?thesis
    by (simp add: answers_respect_min_id_def news_client_def)
qed

lemma news_twice_run:
  \<open>map_sum id (map message_key)
     (fst (get_new_messages_without_duplication news_client plain_os (Some ''{"1": 4}'')
             [''news'', ''news''] 100 24))
   = Inr [(1, 6), (1, 7)]\<close>
  by code_simp

theorem corpus_without_duplicates_witness:
  \<open>answers_respect_min_id news_client
   \<and> load_last_message_tracking plain_os (Some ''{"1": 4}'') = Inr [''1'' \<mapsto> 4]
   \<and> (\<exists>corpus.
         fst (get_new_messages_without_duplication news_client plain_os (Some ''{"1": 4}'')
                [''news'', ''news''] 100 24) = Inr corpus
       \<and> map message_key corpus = [(1, 6), (1, 7)]
       \<and> distinct (map message_key corpus)
       \<and> (\<forall>d \<in> set corpus. \<forall>W. [''1'' \<mapsto> 4] (tracking_key d) = Some W \<longrightarrow> 0 < W
             \<longrightarrow> W < md_id d))\<close>
proof -
  have loaded: \<open>load_last_message_tracking plain_os (Some ''{"1": 4}'') = Inr [''1'' \<mapsto> 4]\<close>
    by (simp add: load_last_message_tracking_def plain_os_def)
  from news_twice_run obtain corpus where
    run: \<open>fst (get_new_messages_without_duplication news_client plain_os (Some ''{"1": 4}'')
                [''news'', ''news''] 100 24) = Inr corpus\<close>
    and keys: "map message_key corpus = [(1, 6), (1, 7)]"
    by (cases \<open>fst (get_new_messages_without_duplication news_client plain_os
                      (Some ''{"1": 4}'') [''news'', ''news''] 100 24)\<close>) auto
  from corpus_without_duplicates [OF news_client_respects loaded run] run keys
    news_client_respects loaded
  show ?thesis by (intro conjI exI [of _ corpus]) simp_all
qed

lemma set_telegram_history: "set (telegram_history store r) \<subseteq> set store"
  unfolding telegram_history_def using set_take_subset [of "nat (req_limit r)"] by fastforce

lemma news_client_utc_dates: "answers_hold_utc_dates news_client"
proof -
  have "\<forall>m \<in> set news_store. utc_or_naive (msg_date m)"
    by code_simp
  with set_telegram_history [of news_store] show ?thesis
    by (auto simp: answers_hold_utc_dates_def news_client_def)
qed

lemma news_sorted_run:
  "map_sum id (map md_date)
     (fst (get_new_messages_without_duplication news_client plain_os None [''news''] 100 24))
   = Inr [''2024-01-02T09:00:00'', ''2024-01-02T10:00:00+00:00'',
          ''2024-01-02T11:00:00+00:00'']"
  by code_simp

theorem corpus_chronological_witness:
  "answers_hold_utc_dates news_client
   \<and> (\<exists>corpus (sources :: message list).
         fst (get_new_messages_without_duplication news_client plain_os None [''news''] 100 24)
           = Inr corpus
       \<and> map md_date corpus
           = [''2024-01-02T09:00:00'', ''2024-01-02T10:00:00+00:00'',
              ''2024-01-02T11:00:00+00:00'']
       \<and> map md_id corpus = map msg_id sources
       \<and> map md_date corpus = map (\<lambda>m. isoformat (msg_date m)) sources
       \<and> sorted (map (\<lambda>m. instant (msg_date m)) sources))"
proof -
  from news_sorted_run obtain corpus where
    run: "fst (get_new_messages_without_duplication news_client plain_os None [''news''] 100 24)
            = Inr corpus"
    and dates: "map md_date corpus
         = [''2024-01-02T09:00:00'', ''2024-01-02T10:00:00+00:00'',
            ''2024-01-02T11:00:00+00:00'']"
    by (cases "fst (get_new_messages_without_duplication news_client plain_os None
                      [''news''] 100 24)") auto
  from corpus_chronological [OF news_client_utc_dates run] obtain sources where
    src: "map md_id corpus = map msg_id sources
      \<and> map md_date corpus = map (\<lambda>m. isoformat (msg_date m)) sources
      \<and> (\<forall>m \<in> set sources.
            \<exists>k ent r ms. get_history news_client k ent r = Inr ms \<and> m \<in> set ms)
      \<and> sorted (map (\<lambda>m. instant (msg_date m)) sources)"
    by (rule exE)
  then have aligned: "map md_id corpus = map msg_id sources"
    "map md_date corpus = map (\<lambda>m. isoformat (msg_date m)) sources"
    "sorted (map (\<lambda>m. instant (msg_date m)) sources)"
    by simp_all
  show ?thesis
    apply (rule conjI [OF news_client_utc_dates])
    apply (rule exI [of _ corpus])
    apply (rule exI [of _ sources])
    apply (intro conjI run dates aligned)
    done
qed

text \<open>
  C3.  The cursor fetch at a watermark of 4, against the documented answer of the
  server: the request carries \<^verbatim>\<open>min_id = 5\<close>, the server answers with the messages
  whose id is more than 5, and the run collects 7 and 6 and moves the watermark to 7.
  Message 5, the one right after the watermark, is on the server and is not fetched,
  in this run or in any later one.
\<close>

theorem cursor_fetch_skips_next_id:
  "history_request_of 100 (IdTracking 4)
     = \<lparr>req_limit = 100, req_offset_id = 0, req_max_id = 0, req_min_id = 5, req_add_offset = 0\<rparr>
   \<and> map msg_id news_store = [7, 6, 5, 4]
   \<and> map msg_id (telegram_history news_store (history_request_of 100 (IdTracking 4))) = [7, 6]
   \<and> map md_id (snd (collect_channels news_client 100 24 0 [''news''] [''1'' \<mapsto> 4] [])) = [7, 6]
   \<and> fst (collect_channels news_client 100 24 0 [''news''] [''1'' \<mapsto> 4] []) ''1'' = Some 7"
  by code_simp

end
